theory Spec2Isabelle
  imports Main "HOL-Library.Word" "HOL-Library.Sublist"
begin

unbundle bit_operations_syntax

section \<open>Data model of the TCP peer transport (overlay/TCPPeer.h, overlay/TCPPeer.cpp)\<close>

type_synonym byte = "8 word"
type_synonym payload = "byte list"

text \<open>A reading of the virtual clock; differences of two readings are durations.\<close>
type_synonym time_point = int

text \<open>An asio error code; 0 is success, as \<open>if (error)\<close> and \<open>if (!ec)\<close> test it.\<close>
type_synonym error_code = int

text \<open>
  Modelled from the spec: the enumerations of overlay/Peer.h, which is not among the sources.
  The spec's state table lists the four values of \<open>mState\<close>; the drop modes are the spec's
  \<open>IGNORE_WRITE_QUEUE\<close> and \<open>KEEP_WRITE_QUEUE\<close>; the drop directions are the two the
  source's log lines tell apart.
\<close>
datatype PeerState = CONNECTING | CONNECTED | GOT_AUTH | CLOSING

datatype DropDirection = WE_DROPPED_REMOTE | REMOTE_DROPPED_US

datatype DropMode = IGNORE_WRITE_QUEUE | KEEP_WRITE_QUEUE

text \<open>The only error code of the overlay protocol that the transport itself sends.\<close>
datatype ErrorCode = ERR_DATA

definition MAX_UNAUTH_MESSAGE_SIZE :: int where
  "MAX_UNAUTH_MESSAGE_SIZE = 0x1000"

definition MAX_MESSAGE_SIZE :: int where
  "MAX_MESSAGE_SIZE = 0x1000000"

definition HDRSZ :: nat where
  "HDRSZ = 4"

text \<open>The struct \<open>TCPPeer::TimestampedMessage\<close>.\<close>
record TimestampedMessage =
  mEnqueuedTime :: time_point
  mIssuedTime :: time_point
  mCompletedTime :: time_point
  mMessage :: payload

text \<open>
  The log lines of the source, one constructor per \<open>CLOG\<close> statement (the peer's
  \<open>toString()\<close> is left out of the text; lines guarded by \<open>Logging::logTrace\<close> are
  not recorded).
\<close>
datatype LogLevel = LVL_DEBUG | LVL_INFO | LVL_ERROR

datatype LogLine =
    TryingToSendAfterDrop
  | ReportInternalBug
  | DoubleScheduleOfShutdown
  | ShutdownSocketFailed error_code
  | CloseSocketFailed error_code
  | ErrorDuringSending
  | MessageSizeUnacceptable int bool
  | ReadHeaderHandlerError error_code
  | ReadBodyHandlerError error_code
  | RecvMessageCorruptXdr
  | DropInState PeerState
  | DroppingPeer string
  | PeerDroppedUs string

text \<open>
  What the peer has handed to the reactor and not yet seen complete: the work posted with
  \<open>postOnMainThread\<close>, and the asynchronous socket operations with the values their
  completion lambdas capture.
\<close>
datatype PostedTask = TaskShutdown | TaskClose

datatype WriteOp = AsyncFlush | AsyncWrite TimestampedMessage

datatype ReadOp = AsyncReadHeader | AsyncReadBody

datatype fault = AssertionFailed | PopOfEmptyQueue

text \<open>
  The peer as the transport sees it. The first block is the members of \<open>TCPPeer\<close> and the
  members of the base peer that the source reads or writes; the second block is the state of
  the collaborators that the source acts on: the clock, the overlay manager's registry, the
  idle timer, the main-thread queue, the buffered socket, the metrics and the log.
\<close>
record peer =
  mState :: PeerState
  mIncomingHeader :: "byte list"
  mIncomingBody :: "byte list"
  mWriteQueue :: "TimestampedMessage list"
  mWriting :: bool
  mDelayedShutdown :: bool
  mShutdownScheduled :: bool
  mLastWrite :: time_point
  mLastEmpty :: time_point
  pmMessageWrite :: nat
  pmByteWrite :: nat
  clockNow :: time_point
  appAborting :: bool
  inOverlayManager :: bool
  idleTimerArmed :: bool
  posted :: "PostedTask list"
  sockIn :: "byte list"
  sockWrites :: "payload list"
  sockShutdown :: bool
  sockClosed :: bool
  pendingWrites :: "WriteOp list"
  pendingReads :: "ReadOp list"
  mErrorRead :: nat
  mErrorWrite :: nat
  mAsyncRead :: nat
  mMessageWrite :: nat
  mByteWrite :: nat
  mMessageRead :: nat
  mByteRead :: nat
  mMessageDelayInWriteQueueTimer :: "int list"
  mMessageDelayInAsyncWriteTimer :: "int list"
  logs :: "(LogLevel \<times> LogLine) list"

section \<open>The base peer's predicates\<close>

text \<open>
  Modelled from the spec: \<open>Peer::isAuthenticated\<close> of overlay/Peer.h, which is not among
  the sources. The glossary calls a peer authenticated once it has completed the handshake,
  which is the state \<open>GOT_AUTH\<close>.
\<close>
definition isAuthenticated :: "peer \<Rightarrow> bool" where
  "isAuthenticated p = (mState p = GOT_AUTH)"

text \<open>
  Modelled from the spec: \<open>Peer::isConnected\<close> of overlay/Peer.h, which is not among the
  sources. The source's comment sets "while connected" against "during shutdown or
  connection", so a peer is connected when it is neither connecting nor closing.
\<close>
definition isConnected :: "peer \<Rightarrow> bool" where
  "isConnected p = (mState p \<noteq> CONNECTING \<and> mState p \<noteq> CLOSING)"

text \<open>
  Modelled from the spec: \<open>Peer::shouldAbort\<close> of overlay/Peer.h, which is not among the
  sources. The spec makes \<open>drop\<close> idempotent through it, so a peer in state \<open>CLOSING\<close> is
  aborting; every other reason to abort belongs to the application and is the flag
  \<open>appAborting\<close>.
\<close>
definition shouldAbort :: "peer \<Rightarrow> bool" where
  "shouldAbort p = (mState p = CLOSING \<or> appAborting p)"

text \<open>
  Modelled from the spec: \<open>Peer::receivedBytes\<close> of overlay/Peer.cpp, which is not among
  the sources: it reports the byte count to the metrics, and its flag says that the call
  closes a full message.
\<close>
definition receivedBytes :: "nat \<Rightarrow> bool \<Rightarrow> peer \<Rightarrow> peer" where
  "receivedBytes byteCount gotFullMessage p =
     (let p1 = p\<lparr>mByteRead := mByteRead p + byteCount\<rparr>
      in if gotFullMessage then p1\<lparr>mMessageRead := mMessageRead p1 + 1\<rparr> else p1)"

section \<open>Shutdown and drop\<close>

text \<open>\<open>TCPPeer::shutdown\<close>: guarded by \<open>mShutdownScheduled\<close>.\<close>
definition shutdown :: "peer \<Rightarrow> peer" where
  "shutdown p =
     (if mShutdownScheduled p
      then p\<lparr>logs := logs p @ [(LVL_ERROR, DoubleScheduleOfShutdown), (LVL_ERROR, ReportInternalBug)]\<rparr>
      else p\<lparr>idleTimerArmed := False,
             mShutdownScheduled := True,
             posted := posted p @ [TaskShutdown]\<rparr>)"

text \<open>
  The two lambdas that \<open>shutdown\<close> posts. The error code is what the socket call reports;
  the first lambda posts the second.
\<close>
definition shutdownTask :: "error_code \<Rightarrow> peer \<Rightarrow> peer" where
  "shutdownTask ec p =
     (let p1 = p\<lparr>sockShutdown := (sockShutdown p \<or> ec = 0)\<rparr>;
          p2 = (if ec \<noteq> 0 then p1\<lparr>logs := logs p1 @ [(LVL_DEBUG, ShutdownSocketFailed ec)]\<rparr> else p1)
      in p2\<lparr>posted := posted p2 @ [TaskClose]\<rparr>)"

definition closeTask :: "error_code \<Rightarrow> peer \<Rightarrow> peer" where
  "closeTask ec2 p =
     (let p1 = p\<lparr>sockClosed := (sockClosed p \<or> ec2 = 0)\<rparr>
      in if ec2 \<noteq> 0 then p1\<lparr>logs := logs p1 @ [(LVL_DEBUG, CloseSocketFailed ec2)]\<rparr> else p1)"

text \<open>The main thread runs the oldest posted task; the socket call in it reports \<open>ec\<close>.\<close>
definition runPosted :: "error_code \<Rightarrow> peer \<Rightarrow> peer" where
  "runPosted ec p =
     (case posted p of
        [] \<Rightarrow> p
      | t # ts \<Rightarrow>
          (case t of
             TaskShutdown \<Rightarrow> shutdownTask ec (p\<lparr>posted := ts\<rparr>)
           | TaskClose \<Rightarrow> closeTask ec (p\<lparr>posted := ts\<rparr>)))"

fun runAllPosted :: "error_code list \<Rightarrow> peer \<Rightarrow> peer" where
  "runAllPosted [] p = p"
| "runAllPosted (ec # ecs) p = runAllPosted ecs (runPosted ec p)"

text \<open>\<open>TCPPeer::drop\<close>.\<close>
definition drop_peer :: "string \<Rightarrow> DropDirection \<Rightarrow> DropMode \<Rightarrow> peer \<Rightarrow> peer" where
  "drop_peer reason dropDirection dropMode p =
     (if shouldAbort p then p
      else
        let line = (if mState p \<noteq> GOT_AUTH then (LVL_DEBUG, DropInState (mState p))
                    else if dropDirection = WE_DROPPED_REMOTE then (LVL_INFO, DroppingPeer reason)
                    else (LVL_INFO, PeerDroppedUs reason));
            p1 = p\<lparr>logs := logs p @ [line]\<rparr>;
            p2 = p1\<lparr>mState := CLOSING\<rparr>;
            p3 = p2\<lparr>inOverlayManager := False\<rparr>
        in if dropMode = IGNORE_WRITE_QUEUE \<or> \<not> mWriting p3
           then shutdown p3
           else p3\<lparr>mDelayedShutdown := True\<rparr>)"

section \<open>The write pipeline\<close>

text \<open>
  \<open>TCPPeer::messageSender\<close>, up to the point where it hands the flush or the write to the
  socket. \<open>sockWrites\<close> records the buffers given to \<open>async_write\<close>, in the order of the
  calls. The head of the queue is stamped in place and stays in the queue.
\<close>
definition messageSender :: "peer \<Rightarrow> peer" where
  "messageSender p =
     (case mWriteQueue p of
        [] \<Rightarrow> p\<lparr>mLastEmpty := clockNow p, pendingWrites := pendingWrites p @ [AsyncFlush]\<rparr>
      | front # rest \<Rightarrow>
          let tsm = front\<lparr>mIssuedTime := clockNow p\<rparr>
          in p\<lparr>mWriteQueue := tsm # rest,
               sockWrites := sockWrites p @ [mMessage tsm],
               pendingWrites := pendingWrites p @ [AsyncWrite tsm]\<rparr>)"

text \<open>\<open>TCPPeer::sendMessage\<close>. A default-constructed time point is the epoch.\<close>
definition sendMessage :: "payload \<Rightarrow> peer \<Rightarrow> peer" where
  "sendMessage xdrBytes p =
     (if mState p = CLOSING
      then p\<lparr>logs := logs p @ [(LVL_ERROR, TryingToSendAfterDrop), (LVL_ERROR, ReportInternalBug)]\<rparr>
      else
        let msg = \<lparr>mEnqueuedTime = clockNow p, mIssuedTime = 0, mCompletedTime = 0,
                   mMessage = xdrBytes\<rparr>;
            p1 = p\<lparr>mWriteQueue := mWriteQueue p @ [msg]\<rparr>
        in if \<not> mWriting p1 then messageSender (p1\<lparr>mWriting := True\<rparr>) else p1)"

text \<open>\<open>TCPPeer::TimestampedMessage::recordWriteTiming\<close>.\<close>
definition recordWriteTiming :: "TimestampedMessage \<Rightarrow> peer \<Rightarrow> peer" where
  "recordWriteTiming tsm p =
     (let qdelay = mIssuedTime tsm - mEnqueuedTime tsm;
          wdelay = mCompletedTime tsm - mIssuedTime tsm
      in p\<lparr>mMessageDelayInWriteQueueTimer := mMessageDelayInWriteQueueTimer p @ [qdelay],
           mMessageDelayInAsyncWriteTimer := mMessageDelayInAsyncWriteTimer p @ [wdelay]\<rparr>)"

text \<open>
  \<open>TCPPeer::writeHandler\<close>. The \<open>LoadManager::PeerContext\<close> of the success branch only
  accounts the handler's cost to the peer and is left out.
\<close>
definition writeHandler :: "error_code \<Rightarrow> nat \<Rightarrow> peer \<Rightarrow> peer" where
  "writeHandler error bytes_transferred p =
     (let p1 = p\<lparr>mLastWrite := clockNow p\<rparr>
      in if error \<noteq> 0
         then
           let p2 = (if isConnected p1
                     then p1\<lparr>mErrorWrite := mErrorWrite p1 + 1,
                             logs := logs p1 @ [(LVL_ERROR, ErrorDuringSending)]\<rparr>
                     else p1)
           in if mDelayedShutdown p2 then shutdown p2
              else drop_peer ''error during write'' WE_DROPPED_REMOTE IGNORE_WRITE_QUEUE p2
         else if bytes_transferred \<noteq> 0
         then p1\<lparr>mMessageWrite := mMessageWrite p1 + 1,
                 mByteWrite := mByteWrite p1 + bytes_transferred,
                 pmMessageWrite := pmMessageWrite p1 + 1,
                 pmByteWrite := pmByteWrite p1 + bytes_transferred\<rparr>
         else p1)"

text \<open>The completion lambda of \<open>async_flush\<close> in \<open>messageSender\<close>.\<close>
definition flushCompletion :: "error_code \<Rightarrow> peer \<Rightarrow> peer" where
  "flushCompletion ec p =
     (let p1 = writeHandler ec 0 p
      in if ec = 0
         then if mWriteQueue p1 \<noteq> [] then messageSender p1
              else
                let p2 = p1\<lparr>mWriting := False\<rparr>
                in if mDelayedShutdown p2 then shutdown p2 else p2
         else p1)"

text \<open>
  The completion lambda of \<open>async_write\<close> in \<open>messageSender\<close>; \<open>tsm\<close> is the record it
  captured. \<open>std::queue::pop\<close> on an empty queue is undefined, which the model reports.
\<close>
definition writeCompletion :: "TimestampedMessage \<Rightarrow> error_code \<Rightarrow> nat \<Rightarrow> peer \<Rightarrow> fault + peer" where
  "writeCompletion tsm ec len p =
     (let p1 = writeHandler ec len p;
          tsm1 = tsm\<lparr>mCompletedTime := clockNow p1\<rparr>;
          p2 = recordWriteTiming tsm1 p1
      in case mWriteQueue p2 of
           [] \<Rightarrow> Inl PopOfEmptyQueue
         | front # rest \<Rightarrow>
             let p3 = p2\<lparr>mWriteQueue := rest\<rparr>
             in Inr (if ec = 0 then messageSender p3 else p3))"

text \<open>
  The reactor completes the oldest write-side operation with error code \<open>ec\<close> and \<open>len\<close>
  bytes transferred, and runs its lambda.
\<close>
definition completeWrite :: "error_code \<Rightarrow> nat \<Rightarrow> peer \<Rightarrow> fault + peer" where
  "completeWrite ec len p =
     (case pendingWrites p of
        [] \<Rightarrow> Inr p
      | w # ws \<Rightarrow>
          (case w of
             AsyncFlush \<Rightarrow> Inr (flushCompletion ec (p\<lparr>pendingWrites := ws\<rparr>))
           | AsyncWrite tsm \<Rightarrow> writeCompletion tsm ec len (p\<lparr>pendingWrites := ws\<rparr>)))"

section \<open>The read pipeline\<close>

text \<open>
  The source's \<open>int length\<close> computation in \<open>getIncomingMsgLength\<close>, statement by
  statement, on a 32-bit word read as signed.
\<close>
definition decodeLength :: "byte list \<Rightarrow> 32 word" where
  "decodeLength h =
     (let l0 = (ucast (h ! 0) :: 32 word);
          l1 = l0 AND 0x7f;
          l2 = push_bit 8 l1;
          l3 = l2 OR ucast (h ! 1);
          l4 = push_bit 8 l3;
          l5 = l4 OR ucast (h ! 2);
          l6 = push_bit 8 l5;
          l7 = l6 OR ucast (h ! 3)
      in l7)"

text \<open>The decoding formula as the spec writes it, on unbounded integers.\<close>
definition spec_length :: "byte list \<Rightarrow> int" where
  "spec_length h =
     push_bit 24 (uint (h ! 0) AND 0x7f) OR push_bit 16 (uint (h ! 1))
       OR push_bit 8 (uint (h ! 2)) OR uint (h ! 3)"

text \<open>The size check of \<open>getIncomingMsgLength\<close>: true when the length is refused.\<close>
definition unacceptable :: "bool \<Rightarrow> int \<Rightarrow> bool" where
  "unacceptable authenticated len =
     (len \<le> 0 \<or> (\<not> authenticated \<and> len > MAX_UNAUTH_MESSAGE_SIZE) \<or> len > MAX_MESSAGE_SIZE)"

text \<open>\<open>TCPPeer::getIncomingMsgLength\<close>: the returned length and the peer afterwards.\<close>
definition getIncomingMsgLength :: "peer \<Rightarrow> int \<times> peer" where
  "getIncomingMsgLength p =
     (let len = sint (decodeLength (mIncomingHeader p))
      in if unacceptable (isAuthenticated p) len
         then
           let p1 = p\<lparr>mErrorRead := mErrorRead p + 1\<rparr>;
               p2 = p1\<lparr>logs := logs p1 @ [(LVL_ERROR, MessageSizeUnacceptable len (isAuthenticated p1))]\<rparr>;
               p3 = drop_peer ''error during read'' WE_DROPPED_REMOTE IGNORE_WRITE_QUEUE p2
           in (0, p3)
         else (len, p))"

text \<open>\<open>std::vector::resize\<close>: truncate, or pad with zero bytes.\<close>
definition resize :: "nat \<Rightarrow> byte list \<Rightarrow> byte list" where
  "resize n v = take n v @ replicate (n - length v) 0"

text \<open>
  \<open>read_some\<close> on the buffered stream with bytes available: it copies as many buffered bytes
  as the destination holds, and returns their number, the destination and the peer.
\<close>
definition read_some :: "byte list \<Rightarrow> peer \<Rightarrow> nat \<times> byte list \<times> peer" where
  "read_some buf p =
     (let got = take (length buf) (sockIn p);
          n = length got
      in (n, got @ drop n buf, p\<lparr>sockIn := drop n (sockIn p)\<rparr>))"

text \<open>\<open>TCPPeer::readHeaderHandler\<close>.\<close>
definition readHeaderHandler :: "error_code \<Rightarrow> nat \<Rightarrow> peer \<Rightarrow> peer" where
  "readHeaderHandler error bytes_transferred p =
     (if error = 0
      then
        let p1 = receivedBytes bytes_transferred False p;
            (len, p2) = getIncomingMsgLength p1
        in if len \<noteq> 0
           then p2\<lparr>mIncomingBody := resize (nat len) (mIncomingBody p2),
                   pendingReads := pendingReads p2 @ [AsyncReadBody]\<rparr>
           else p2
      else
        let p1 = (if isConnected p
                  then p\<lparr>mErrorRead := mErrorRead p + 1,
                         logs := logs p @ [(LVL_DEBUG, ReadHeaderHandlerError error)]\<rparr>
                  else p)
        in drop_peer ''error during read'' WE_DROPPED_REMOTE IGNORE_WRITE_QUEUE p1)"

text \<open>
  Modelled from the spec: \<open>Peer::sendErrorAndDrop\<close> of overlay/Peer.cpp, which is not among
  the sources: it sends an error message with the given code and text and drops the peer with
  the text as the reason. \<open>E\<close> serialises the error message.
\<close>
definition sendErrorAndDrop ::
  "(ErrorCode \<Rightarrow> string \<Rightarrow> payload) \<Rightarrow> ErrorCode \<Rightarrow> string \<Rightarrow> DropMode \<Rightarrow> peer \<Rightarrow> peer" where
  "sendErrorAndDrop E error message dropMode p =
     drop_peer message WE_DROPPED_REMOTE dropMode (sendMessage (E error message) p)"

text \<open>
  How a call of the base peer's \<open>Peer::recvMessage\<close> ends, as the \<open>try\<close> block of
  \<open>TCPPeer::recvMessage\<close> sees it: it returns, or it throws an \<open>xdr_runtime_error\<close>;
  either way with the peer as the handler has left it.
\<close>
datatype handler_outcome = HandlerReturned peer | HandlerThrewXdr peer

text \<open>The \<open>catch\<close> block of \<open>TCPPeer::recvMessage\<close>.\<close>
definition catchXdrError :: "(ErrorCode \<Rightarrow> string \<Rightarrow> payload) \<Rightarrow> peer \<Rightarrow> peer" where
  "catchXdrError E p =
     sendErrorAndDrop E ERR_DATA ''received corrupt XDR'' IGNORE_WRITE_QUEUE
       (p\<lparr>logs := logs p @ [(LVL_ERROR, RecvMessageCorruptXdr)]\<rparr>)"

text \<open>
  \<open>TCPPeer::recvMessage\<close>. \<open>D\<close> is the XDR decoding of the body into the authenticated
  envelope (\<open>None\<close> where it throws \<open>xdr_runtime_error\<close>) and \<open>H\<close> is the base peer's
  \<open>Peer::recvMessage\<close>; neither is among the sources. The \<open>try\<close> block holds both the
  decoding and the call of the handler, so an \<open>xdr_runtime_error\<close> from either reaches the
  \<open>catch\<close> block.
\<close>
definition recvMessage ::
  "(payload \<Rightarrow> 'am option) \<Rightarrow> ('am \<Rightarrow> peer \<Rightarrow> handler_outcome) \<Rightarrow> (ErrorCode \<Rightarrow> string \<Rightarrow> payload) \<Rightarrow>
     peer \<Rightarrow> peer" where
  "recvMessage D H E p =
     (case D (mIncomingBody p) of
        None \<Rightarrow> catchXdrError E p
      | Some am \<Rightarrow>
          (case H am p of
             HandlerReturned q \<Rightarrow> q
           | HandlerThrewXdr q \<Rightarrow> catchXdrError E q))"

text \<open>
  How the drain loop of \<open>startRead\<close> ends: by a \<open>return\<close> inside the loop, or by its
  condition becoming false, after which \<open>startRead\<close> goes on to register the asynchronous
  header read.
\<close>
datatype loop_end = Returned peer | LoopDone peer

text \<open>
  The \<open>while\<close> loop of \<open>startRead\<close>. The \<open>YieldTimer\<close> of util/Timer.h is not among
  the sources; it enters as the number of times its \<open>shouldKeepGoing()\<close> still answers yes,
  and it is asked only when four bytes are buffered.
\<close>
fun startRead_loop ::
  "(payload \<Rightarrow> 'am option) \<Rightarrow> ('am \<Rightarrow> peer \<Rightarrow> handler_outcome) \<Rightarrow> (ErrorCode \<Rightarrow> string \<Rightarrow> payload) \<Rightarrow> nat \<Rightarrow> peer \<Rightarrow> loop_end" where
  "startRead_loop D H E 0 p = LoopDone p"
| "startRead_loop D H E (Suc yt) p =
     (if length (sockIn p) < HDRSZ then LoopDone p
      else
        case read_some (mIncomingHeader p) p of (n, hdr, q) \<Rightarrow>
          let p1 = q\<lparr>mIncomingHeader := hdr\<rparr>
          in if n \<noteq> HDRSZ
             then Returned (drop_peer ''error during header read_some'' WE_DROPPED_REMOTE IGNORE_WRITE_QUEUE p1)
             else
               case getIncomingMsgLength p1 of (len, p2) \<Rightarrow>
                 if nat len \<noteq> 0
                 then
                   if length (sockIn p2) \<ge> nat len
                   then
                     let p3 = p2\<lparr>mIncomingBody := resize (nat len) (mIncomingBody p2)\<rparr>
                     in case read_some (mIncomingBody p3) p3 of (m, body, r) \<Rightarrow>
                          let p4 = r\<lparr>mIncomingBody := body\<rparr>
                          in if m \<noteq> nat len
                             then Returned (drop_peer ''error during body read_some'' WE_DROPPED_REMOTE IGNORE_WRITE_QUEUE p4)
                             else startRead_loop D H E yt (recvMessage D H E (receivedBytes (nat len) True p4))
                   else Returned (readHeaderHandler 0 HDRSZ p2)
                 else startRead_loop D H E yt p2)"

text \<open>\<open>TCPPeer::startRead\<close>; the \<open>assert\<close> on the header buffer is a fault of the model.\<close>
definition startRead ::
  "(payload \<Rightarrow> 'am option) \<Rightarrow> ('am \<Rightarrow> peer \<Rightarrow> handler_outcome) \<Rightarrow> (ErrorCode \<Rightarrow> string \<Rightarrow> payload) \<Rightarrow> nat \<Rightarrow> peer \<Rightarrow> fault + peer" where
  "startRead D H E yt p =
     (if shouldAbort p then Inr p
      else if length (mIncomingHeader p) \<noteq> 0 then Inl AssertionFailed
      else
        let p1 = p\<lparr>mIncomingHeader := resize HDRSZ (mIncomingHeader p)\<rparr>
        in case startRead_loop D H E yt p1 of
             Returned p2 \<Rightarrow> Inr p2
           | LoopDone p2 \<Rightarrow>
               Inr (p2\<lparr>mAsyncRead := mAsyncRead p2 + 1,
                       pendingReads := pendingReads p2 @ [AsyncReadHeader]\<rparr>))"

text \<open>
  \<open>TCPPeer::readBodyHandler\<close>; \<open>yt\<close> is the yield timer of the \<open>startRead\<close> it ends with.
\<close>
definition readBodyHandler ::
  "(payload \<Rightarrow> 'am option) \<Rightarrow> ('am \<Rightarrow> peer \<Rightarrow> handler_outcome) \<Rightarrow> (ErrorCode \<Rightarrow> string \<Rightarrow> payload) \<Rightarrow> nat \<Rightarrow>
     error_code \<Rightarrow> nat \<Rightarrow> peer \<Rightarrow> fault + peer" where
  "readBodyHandler D H E yt error bytes_transferred p =
     (if error = 0
      then
        let p1 = receivedBytes bytes_transferred True p;
            p2 = recvMessage D H E p1;
            p3 = p2\<lparr>mIncomingHeader := []\<rparr>
        in startRead D H E yt p3
      else
        let p1 = (if isConnected p
                  then p\<lparr>mErrorRead := mErrorRead p + 1,
                         logs := logs p @ [(LVL_ERROR, ReadBodyHandlerError error)]\<rparr>
                  else p)
        in Inr (drop_peer ''error during read'' WE_DROPPED_REMOTE IGNORE_WRITE_QUEUE p1))"

section \<open>Concrete peers, and the steps of the handlers named\<close>

text \<open>A peer as \<open>accept\<close> leaves it: connected, not authenticated, nothing queued or read.\<close>
definition freshPeer :: peer where
  "freshPeer =
     \<lparr>mState = CONNECTED, mIncomingHeader = [], mIncomingBody = [], mWriteQueue = [],
      mWriting = False, mDelayedShutdown = False, mShutdownScheduled = False,
      mLastWrite = 0, mLastEmpty = 0, pmMessageWrite = 0, pmByteWrite = 0,
      clockNow = 0, appAborting = False, inOverlayManager = True, idleTimerArmed = True,
      posted = [], sockIn = [], sockWrites = [], sockShutdown = False, sockClosed = False,
      pendingWrites = [], pendingReads = [],
      mErrorRead = 0, mErrorWrite = 0, mAsyncRead = 0, mMessageWrite = 0, mByteWrite = 0,
      mMessageRead = 0, mByteRead = 0,
      mMessageDelayInWriteQueueTimer = [], mMessageDelayInAsyncWriteTimer = [], logs = []\<rparr>"

definition peerWithHeader :: "byte list \<Rightarrow> peer" where
  "peerWithHeader h = freshPeer\<lparr>mIncomingHeader := h\<rparr>"

text \<open>The size limits as the spec states them for an accepted length.\<close>
definition spec_acceptable :: "bool \<Rightarrow> int \<Rightarrow> bool" where
  "spec_acceptable authenticated L =
     (L > 0 \<and> L \<le> MAX_MESSAGE_SIZE \<and> (authenticated \<or> L \<le> MAX_UNAUTH_MESSAGE_SIZE))"

text \<open>The peer with its log forgotten, to compare two peers up to logging.\<close>
definition stripLogs :: "peer \<Rightarrow> peer" where
  "stripLogs p = p\<lparr>logs := []\<rparr>"

text \<open>A peer that has been dropped.\<close>
definition closingPeer :: peer where
  "closingPeer = freshPeer\<lparr>mState := CLOSING\<rparr>"

text \<open>The peer that \<open>drop\<close> shuts down or marks: logged, closing, out of the overlay manager.\<close>
definition dropped :: "string \<Rightarrow> DropDirection \<Rightarrow> peer \<Rightarrow> peer" where
  "dropped reason dropDirection p =
     p\<lparr>logs := logs p @ [if mState p \<noteq> GOT_AUTH then (LVL_DEBUG, DropInState (mState p))
                          else if dropDirection = WE_DROPPED_REMOTE then (LVL_INFO, DroppingPeer reason)
                          else (LVL_INFO, PeerDroppedUs reason)],
       mState := CLOSING,
       inOverlayManager := False\<rparr>"

text \<open>A peer with one message queued and its write in flight.\<close>
definition writingPeer :: peer where
  "writingPeer = sendMessage [1, 2, 3] freshPeer"

text \<open>A peer whose only message has been written and whose flush is in flight.\<close>
definition flushingPeer :: peer where
  "flushingPeer =
     freshPeer\<lparr>mWriting := True, sockWrites := [[1, 2, 3]], pendingWrites := [AsyncFlush]\<rparr>"

text \<open>The peer after the first steps of \<open>writeHandler\<close> on an error: time stamped, error metered.\<close>
definition writeFailed :: "peer \<Rightarrow> peer" where
  "writeFailed p =
     (if isConnected p
      then p\<lparr>mLastWrite := clockNow p,
             mErrorWrite := mErrorWrite p + 1,
             logs := logs p @ [(LVL_ERROR, ErrorDuringSending)]\<rparr>
      else p\<lparr>mLastWrite := clockNow p\<rparr>)"

text \<open>
  An XDR decoder that refuses the empty body, a handler that counts the message and returns,
  and a handler that throws an \<open>xdr_runtime_error\<close> at once.
\<close>
definition exampleDecode :: "payload \<Rightarrow> payload option" where
  "exampleDecode body = (if body = [] then None else Some body)"

definition exampleHandler :: "payload \<Rightarrow> peer \<Rightarrow> handler_outcome" where
  "exampleHandler am p = HandlerReturned (p\<lparr>mMessageRead := mMessageRead p + 1\<rparr>)"

definition throwingHandler :: "payload \<Rightarrow> peer \<Rightarrow> handler_outcome" where
  "throwingHandler am p = HandlerThrewXdr p"

text \<open>A peer that has read a body of three bytes.\<close>
definition bodyPeer :: peer where
  "bodyPeer = freshPeer\<lparr>mIncomingBody := [1, 2, 3]\<rparr>"

definition exampleError :: "ErrorCode \<Rightarrow> string \<Rightarrow> payload" where
  "exampleError code message = [0xEE]"

section \<open>The write pipeline as a transition system\<close>

text \<open>
  What can happen to the write pipeline between two handlers: a call of \<open>sendMessage\<close>, the
  completion of the oldest write-side operation with an error code and a byte count, a call of
  \<open>drop\<close>, the main thread running a posted task, and the clock moving.
\<close>
datatype event =
    EvSend payload
  | EvComplete error_code nat
  | EvDrop string DropDirection DropMode
  | EvPosted error_code
  | EvClock time_point

definition step :: "event \<Rightarrow> peer \<Rightarrow> fault + peer" where
  "step e p =
     (case e of
        EvSend xdrBytes \<Rightarrow> Inr (sendMessage xdrBytes p)
      | EvComplete ec len \<Rightarrow> completeWrite ec len p
      | EvDrop reason dir mode \<Rightarrow> Inr (drop_peer reason dir mode p)
      | EvPosted ec \<Rightarrow> Inr (runPosted ec p)
      | EvClock t \<Rightarrow> Inr (p\<lparr>clockNow := t\<rparr>))"

fun run :: "event list \<Rightarrow> peer \<Rightarrow> fault + peer" where
  "run [] p = Inr p"
| "run (e # es) p = (case step e p of Inl f \<Rightarrow> Inl f | Inr q \<Rightarrow> run es q)"

text \<open>The payloads handed to \<open>sendMessage\<close>, in the order of the calls.\<close>
fun payloadsSent :: "event list \<Rightarrow> payload list" where
  "payloadsSent [] = []"
| "payloadsSent (EvSend xdrBytes # es) = xdrBytes # payloadsSent es"
| "payloadsSent (e # es) = payloadsSent es"

text \<open>No completion in the list reports an error.\<close>
fun noFailedCompletion :: "event list \<Rightarrow> bool" where
  "noFailedCompletion [] = True"
| "noFailedCompletion (EvComplete ec len # es) = (ec = 0 \<and> noFailedCompletion es)"
| "noFailedCompletion (e # es) = noFailedCompletion es"

text \<open>
  The invariant of the write pipeline: at most one write-side operation is in flight, one in
  flight means \<open>mWriting\<close>, and a write in flight is the write of the record at the front of
  the queue.
\<close>
definition pipeline_ok :: "peer \<Rightarrow> bool" where
  "pipeline_ok p =
     (case pendingWrites p of
        [] \<Rightarrow> True
      | [AsyncFlush] \<Rightarrow> mWriting p
      | [AsyncWrite tsm] \<Rightarrow>
          mWriting p \<and> (case mWriteQueue p of [] \<Rightarrow> False | front # rest \<Rightarrow> front = tsm)
      | _ \<Rightarrow> False)"

text \<open>The records of the queue whose write has not been issued yet.\<close>
definition unissued :: "peer \<Rightarrow> TimestampedMessage list" where
  "unissued p =
     (case pendingWrites p of
        AsyncWrite tsm # ws \<Rightarrow> tl (mWriteQueue p)
      | _ \<Rightarrow> mWriteQueue p)"

text \<open>The payloads given to the socket so far, followed by those still waiting in the queue.\<close>
definition offered :: "peer \<Rightarrow> payload list" where
  "offered p = sockWrites p @ map mMessage (unissued p)"

text \<open>A peer whose write pipeline has not been used.\<close>
definition writeIdle :: "peer \<Rightarrow> bool" where
  "writeIdle p = (mWriteQueue p = [] \<and> \<not> mWriting p \<and> pendingWrites p = [] \<and> sockWrites p = [])"

text \<open>A write chain is armed: a write or a flush is in flight, and its completion goes on.\<close>
definition chain_armed :: "peer \<Rightarrow> bool" where
  "chain_armed p = (pendingWrites p \<noteq> [])"

text \<open>The event is the completion of an asynchronous write, whose lambda pops the queue.\<close>
definition popsFront :: "event \<Rightarrow> peer \<Rightarrow> bool" where
  "popsFront e p =
     (case e of
        EvComplete ec len \<Rightarrow> (case pendingWrites p of AsyncWrite tsm # ws \<Rightarrow> True | _ \<Rightarrow> False)
      | _ \<Rightarrow> False)"

text \<open>What the event adds to the payloads the pipeline has taken on.\<close>
definition accepted :: "event \<Rightarrow> peer \<Rightarrow> payload list" where
  "accepted e p =
     (case e of
        EvSend xdrBytes \<Rightarrow> if mState p = CLOSING then [] else [xdrBytes]
      | _ \<Rightarrow> [])"

text \<open>The completion, if the event is one, reports success.\<close>
definition succeeds :: "event \<Rightarrow> bool" where
  "succeeds e = (case e of EvComplete ec len \<Rightarrow> ec = 0 | _ \<Rightarrow> True)"

text \<open>
  How one event changes the queue: the completion of a write removes the record at the
  front, the one whose write it was; any other event keeps every queued payload in place.
\<close>
definition queue_step :: "event \<Rightarrow> peer \<Rightarrow> peer \<Rightarrow> bool" where
  "queue_step e p q =
     (if popsFront e p
      then pendingWrites p = [AsyncWrite (hd (mWriteQueue p))] \<and>
           map mMessage (mWriteQueue p) = mMessage (hd (mWriteQueue p)) # map mMessage (mWriteQueue q)
      else prefix (map mMessage (mWriteQueue p)) (map mMessage (mWriteQueue q)))"

text \<open>Completions that all report success, with the byte counts given.\<close>
definition successes :: "nat list \<Rightarrow> event list" where
  "successes lens = map (EvComplete 0) lens"

text \<open>
  How many successful completions the pipeline still needs until the flush that finds the
  queue empty has completed: one for each queued record, one for that flush, and one more
  when a flush is in flight over a queue that is not empty.
\<close>
definition drainSteps :: "peer \<Rightarrow> nat" where
  "drainSteps p =
     (case pendingWrites p of
        AsyncFlush # ws \<Rightarrow> (if mWriteQueue p = [] then 1 else length (mWriteQueue p) + 2)
      | AsyncWrite tsm # ws \<Rightarrow> length (mWriteQueue p) + 1
      | [] \<Rightarrow> 0)"

section \<open>Concrete runs\<close>

text \<open>Two messages sent back to back, then the three completions that drain the pipeline.\<close>
definition twoMessages :: "event list" where
  "twoMessages = [EvSend [1], EvSend [2, 2], EvComplete 0 1, EvComplete 0 2, EvComplete 0 0]"

text \<open>One message sent and not yet written.\<close>
definition oneMessage :: "event list" where
  "oneMessage = [EvSend [1, 2, 3]]"

text \<open>One message sent, and its write failing with error code 5.\<close>
definition failedWrite :: "event list" where
  "failedWrite = [EvSend [1, 2, 3], EvComplete 5 0]"

text \<open>The fresh peer after \<open>failedWrite\<close>.\<close>
definition afterFailedWrite :: peer where
  "afterFailedWrite =
     freshPeer\<lparr>mWriting := True,
       sockWrites := [[1, 2, 3]],
       mErrorWrite := 1,
       mState := CLOSING,
       inOverlayManager := False,
       idleTimerArmed := False,
       mShutdownScheduled := True,
       posted := [TaskShutdown],
       mMessageDelayInWriteQueueTimer := [0],
       mMessageDelayInAsyncWriteTimer := [0],
       logs := [(LVL_ERROR, ErrorDuringSending), (LVL_DEBUG, DropInState CONNECTED)]\<rparr>"

text \<open>
  A connected peer whose socket has buffered a header of length zero, and one whose socket
  has buffered that header followed by a whole frame of one byte.
\<close>
definition zeroLengthPeer :: peer where
  "zeroLengthPeer = freshPeer\<lparr>sockIn := [0, 0, 0, 0]\<rparr>"

definition zeroThenFramePeer :: peer where
  "zeroThenFramePeer = freshPeer\<lparr>sockIn := [0, 0, 0, 0, 0x80, 0, 0, 1, 0x2A]\<rparr>"

text \<open>A yield timer that lets the drain loop go round three times.\<close>
definition threeRounds :: nat where
  "threeRounds = Suc (Suc (Suc 0))"

text \<open>What \<open>startRead\<close> makes of the two peers.\<close>
definition afterZeroLength :: peer where
  "afterZeroLength =
     freshPeer\<lparr>mIncomingHeader := [0, 0, 0, 0],
       mErrorRead := 1,
       logs := [(LVL_ERROR, MessageSizeUnacceptable 0 False), (LVL_DEBUG, DropInState CONNECTED)],
       mState := CLOSING,
       inOverlayManager := False,
       idleTimerArmed := False,
       mShutdownScheduled := True,
       posted := [TaskShutdown],
       mAsyncRead := 1,
       pendingReads := [AsyncReadHeader]\<rparr>"

definition afterZeroThenFrame :: peer where
  "afterZeroThenFrame =
     freshPeer\<lparr>mIncomingHeader := [0x80, 0, 0, 1],
       mErrorRead := 1,
       logs := [(LVL_ERROR, MessageSizeUnacceptable 0 False), (LVL_DEBUG, DropInState CONNECTED)],
       mState := CLOSING,
       inOverlayManager := False,
       idleTimerArmed := False,
       mShutdownScheduled := True,
       posted := [TaskShutdown],
       mIncomingBody := [0x2A],
       mByteRead := 1,
       mMessageRead := 2,
       mAsyncRead := 1,
       pendingReads := [AsyncReadHeader]\<rparr>"

section \<open>Properties: the framing codec\<close>

lemma mask7_word: "(0x7f :: 32 word) = mask 7"
  by (simp add: mask_eq_exp_minus_1)

lemma mask7_int: "(0x7f :: int) = mask 7"
  by (simp add: mask_eq_exp_minus_1)

lemma bit_decodeLength:
  "bit (decodeLength h) n \<longleftrightarrow>
     (n < 8 \<and> bit (h ! 3) n) \<or> (8 \<le> n \<and> n < 16 \<and> bit (h ! 2) (n - 8)) \<or>
     (16 \<le> n \<and> n < 24 \<and> bit (h ! 1) (n - 16)) \<or> (24 \<le> n \<and> n < 31 \<and> bit (h ! 0) (n - 24))"
  unfolding decodeLength_def Let_def mask7_word
  by (auto simp add: bit_simps simp flip: take_bit_eq_mask dest: bit_imp_le_length)

lemma bit_spec_length:
  "bit (spec_length h) n \<longleftrightarrow>
     (n < 8 \<and> bit (h ! 3) n) \<or> (8 \<le> n \<and> n < 16 \<and> bit (h ! 2) (n - 8)) \<or>
     (16 \<le> n \<and> n < 24 \<and> bit (h ! 1) (n - 16)) \<or> (24 \<le> n \<and> n < 31 \<and> bit (h ! 0) (n - 24))"
  unfolding spec_length_def mask7_int
  by (auto simp add: bit_simps bit_uint_iff simp flip: take_bit_eq_mask dest: bit_imp_le_length)

lemma sint_decodeLength: "sint (decodeLength h) = spec_length h"
  by (rule bit_eqI) (auto simp add: bit_sint_iff bit_decodeLength bit_spec_length)

lemma spec_length_range: "0 \<le> spec_length h \<and> spec_length h < 2 ^ 31"
proof -
  have "spec_length h = take_bit 31 (spec_length h)"
    by (rule bit_eqI) (auto simp add: bit_simps bit_spec_length)
  moreover have "0 \<le> take_bit 31 (spec_length h)" by simp
  moreover have "take_bit 31 (spec_length h) < 2 ^ 31" by (rule take_bit_int_less_exp)
  ultimately show ?thesis by simp
qed


lemma unacceptable_iff: "unacceptable a L \<longleftrightarrow> \<not> spec_acceptable a L"
  by (auto simp add: unacceptable_def spec_acceptable_def)

lemma shutdown_fields [simp]:
  "mState (shutdown p) = mState p"
  "inOverlayManager (shutdown p) = inOverlayManager p"
  "mErrorRead (shutdown p) = mErrorRead p"
  "mDelayedShutdown (shutdown p) = mDelayedShutdown p"
  "mShutdownScheduled (shutdown p)"
  by (simp_all add: shutdown_def)

lemma drop_peer_mErrorRead [simp]: "mErrorRead (drop_peer r d m p) = mErrorRead p"
  by (simp add: drop_peer_def Let_def)

lemma drop_peer_ignore_write_queue:
  "\<not> shouldAbort p \<Longrightarrow>
     drop_peer r d IGNORE_WRITE_QUEUE p =
       shutdown (p\<lparr>logs := logs p @ [if mState p \<noteq> GOT_AUTH then (LVL_DEBUG, DropInState (mState p))
                    else if d = WE_DROPPED_REMOTE then (LVL_INFO, DroppingPeer r)
                    else (LVL_INFO, PeerDroppedUs r)], mState := CLOSING, inOverlayManager := False\<rparr>)"
  by (simp add: drop_peer_def Let_def)

lemma drop_peer_aborting: "shouldAbort p \<Longrightarrow> drop_peer r d m p = p"
  by (simp add: drop_peer_def)

lemma peerWithHeader_simps [simp]:
  "mIncomingHeader (peerWithHeader h) = h"
  "mState (peerWithHeader h) = CONNECTED"
  "appAborting (peerWithHeader h) = False"
  "mErrorRead (peerWithHeader h) = 0"
  by (simp_all add: peerWithHeader_def freshPeer_def)

lemma decode_examples:
  "sint (decodeLength [0x80, 0, 0, 3]) = 3"
  "sint (decodeLength [0x80, 0, 0x20, 0]) = 0x2000"
  "sint (decodeLength [0xff, 0xff, 0xff, 0xff]) = 0x7fffffff"
  by (simp_all add: decodeLength_def)

text \<open>
  Claim C1. For every 4-byte header, the length that \<open>getIncomingMsgLength\<close> decodes is the
  spec's formula: the big-endian 32-bit value with the high bit of the first byte masked
  off. What the function returns is that value, or 0 when the size check refuses it.
\<close>
theorem getIncomingMsgLength_decodes_big_endian:
  assumes "length (mIncomingHeader p) = 4"
  shows "sint (decodeLength (mIncomingHeader p)) = spec_length (mIncomingHeader p) \<and>
         fst (getIncomingMsgLength p) =
           (if unacceptable (isAuthenticated p) (spec_length (mIncomingHeader p)) then 0
            else spec_length (mIncomingHeader p))"
  by (simp add: getIncomingMsgLength_def Let_def sint_decodeLength)

theorem getIncomingMsgLength_decodes_big_endian_witness:
  "length (mIncomingHeader (freshPeer\<lparr>mIncomingHeader := [0x80, 0, 0, 3]\<rparr>)) = 4 \<and>
   sint (decodeLength [0x80, 0, 0, 3]) = 3 \<and>
   spec_length [0x80, 0, 0, 3] = 3 \<and>
   fst (getIncomingMsgLength (freshPeer\<lparr>mIncomingHeader := [0x80, 0, 0, 3]\<rparr>)) = 3"
proof -
  have h: "length (mIncomingHeader (freshPeer\<lparr>mIncomingHeader := [0x80, 0, 0, 3]\<rparr>)) = 4"
    by simp
  have s: "spec_length [0x80, 0, 0, 3] = 3"
    by (simp add: spec_length_def)
  have u: "\<not> unacceptable (isAuthenticated (freshPeer\<lparr>mIncomingHeader := [0x80, 0, 0, 3]\<rparr>)) 3"
    by (simp add: unacceptable_def MAX_UNAUTH_MESSAGE_SIZE_def MAX_MESSAGE_SIZE_def)
  show ?thesis
    using h s u getIncomingMsgLength_decodes_big_endian [OF h] by simp
qed

text \<open>
  Claim C2. \<open>getIncomingMsgLength\<close> returns the decoded length, nonzero, exactly when the
  length is positive, at most \<open>MAX_MESSAGE_SIZE\<close> and, for a peer that is not authenticated,
  at most \<open>MAX_UNAUTH_MESSAGE_SIZE\<close>, and then leaves the peer as it was. Otherwise it marks
  the \<open>error_read\<close> meter once, logs, calls \<open>drop\<close> with mode \<open>IGNORE_WRITE_QUEUE\<close> and
  returns 0; a peer that was not already aborting is then closing, out of the overlay
  manager, and has its shutdown scheduled rather than delayed.
\<close>
theorem getIncomingMsgLength_accepts_iff:
  assumes "length (mIncomingHeader p) = 4"
    and "L = sint (decodeLength (mIncomingHeader p))"
    and "q = snd (getIncomingMsgLength p)"
  shows "(fst (getIncomingMsgLength p) \<noteq> 0 \<longleftrightarrow> spec_acceptable (isAuthenticated p) L) \<and>
         (spec_acceptable (isAuthenticated p) L \<longrightarrow> getIncomingMsgLength p = (L, p)) \<and>
         (\<not> spec_acceptable (isAuthenticated p) L \<longrightarrow>
            getIncomingMsgLength p =
              (0, drop_peer ''error during read'' WE_DROPPED_REMOTE IGNORE_WRITE_QUEUE
                    (p\<lparr>mErrorRead := mErrorRead p + 1,
                       logs := logs p @ [(LVL_ERROR, MessageSizeUnacceptable L (isAuthenticated p))]\<rparr>)) \<and>
            mErrorRead q = mErrorRead p + 1 \<and>
            (\<not> shouldAbort p \<longrightarrow>
               mState q = CLOSING \<and> \<not> inOverlayManager q \<and> mShutdownScheduled q \<and>
               mDelayedShutdown q = mDelayedShutdown p))"
proof -
  have a: "spec_acceptable (isAuthenticated p) L \<Longrightarrow> getIncomingMsgLength p = (L, p)"
    using assms(2) by (simp add: getIncomingMsgLength_def Let_def unacceptable_iff)
  have b: "\<not> spec_acceptable (isAuthenticated p) L \<Longrightarrow>
      getIncomingMsgLength p =
        (0, drop_peer ''error during read'' WE_DROPPED_REMOTE IGNORE_WRITE_QUEUE
              (p\<lparr>mErrorRead := mErrorRead p + 1,
                 logs := logs p @ [(LVL_ERROR, MessageSizeUnacceptable L (isAuthenticated p))]\<rparr>))"
    using assms(2) by (simp add: getIncomingMsgLength_def Let_def unacceptable_iff isAuthenticated_def)
  have c: "spec_acceptable (isAuthenticated p) L \<Longrightarrow> L \<noteq> 0"
    by (simp add: spec_acceptable_def)
  have d: "\<not> spec_acceptable (isAuthenticated p) L \<Longrightarrow> mErrorRead q = mErrorRead p + 1"
    using b assms(3) by simp
  have e: "\<not> spec_acceptable (isAuthenticated p) L \<Longrightarrow> \<not> shouldAbort p \<Longrightarrow>
      mState q = CLOSING \<and> \<not> inOverlayManager q \<and> mShutdownScheduled q \<and>
      mDelayedShutdown q = mDelayedShutdown p"
    using b assms(3) by (simp add: drop_peer_ignore_write_queue shouldAbort_def)
  show ?thesis
    using a b c d e by (cases "spec_acceptable (isAuthenticated p) L") simp_all
qed


theorem getIncomingMsgLength_accepts_iff_witness:
  "length (mIncomingHeader (peerWithHeader [0x80, 0, 0, 3])) = 4 \<and>
   spec_acceptable (isAuthenticated (peerWithHeader [0x80, 0, 0, 3])) 3 \<and>
   getIncomingMsgLength (peerWithHeader [0x80, 0, 0, 3]) = (3, peerWithHeader [0x80, 0, 0, 3]) \<and>
   length (mIncomingHeader (peerWithHeader [0x80, 0, 0x20, 0])) = 4 \<and>
   \<not> spec_acceptable (isAuthenticated (peerWithHeader [0x80, 0, 0x20, 0])) 0x2000 \<and>
   \<not> shouldAbort (peerWithHeader [0x80, 0, 0x20, 0]) \<and>
   fst (getIncomingMsgLength (peerWithHeader [0x80, 0, 0x20, 0])) = 0 \<and>
   mErrorRead (snd (getIncomingMsgLength (peerWithHeader [0x80, 0, 0x20, 0]))) =
     mErrorRead (peerWithHeader [0x80, 0, 0x20, 0]) + 1 \<and>
   mState (snd (getIncomingMsgLength (peerWithHeader [0x80, 0, 0x20, 0]))) = CLOSING"
proof -
  have a: "spec_acceptable (isAuthenticated (peerWithHeader [0x80, 0, 0, 3])) 3"
    by (simp add: spec_acceptable_def MAX_MESSAGE_SIZE_def MAX_UNAUTH_MESSAGE_SIZE_def)
  have b: "\<not> spec_acceptable (isAuthenticated (peerWithHeader [0x80, 0, 0x20, 0])) 0x2000"
    by (simp add: spec_acceptable_def isAuthenticated_def MAX_UNAUTH_MESSAGE_SIZE_def)
  have c: "\<not> shouldAbort (peerWithHeader [0x80, 0, 0x20, 0])"
    by (simp add: shouldAbort_def)
  have l1: "length (mIncomingHeader (peerWithHeader [0x80, 0, 0, 3])) = 4"
    and l2: "length (mIncomingHeader (peerWithHeader [0x80, 0, 0x20, 0])) = 4"
    by simp_all
  have d1: "3 = sint (decodeLength (mIncomingHeader (peerWithHeader [0x80, 0, 0, 3])))"
    and d2: "0x2000 = sint (decodeLength (mIncomingHeader (peerWithHeader [0x80, 0, 0x20, 0])))"
    by (simp_all add: decode_examples)
  note ok = getIncomingMsgLength_accepts_iff [OF l1 d1 refl]
  note bad = getIncomingMsgLength_accepts_iff [OF l2 d2 refl]
  from a b c l1 l2 ok bad show ?thesis
    by blast
qed

text \<open>
  Claim C10. The decoded length of a 4-byte header lies in [0, 0x7fffffff]: it is never
  negative, so \<open>length <= 0\<close> can only hold as \<open>length = 0\<close>, and the value returned is 0 or
  the decoded length, which then passed every size check.
\<close>
theorem decoded_length_never_negative:
  assumes "length (mIncomingHeader p) = 4"
    and "L = sint (decodeLength (mIncomingHeader p))"
    and "r = fst (getIncomingMsgLength p)"
  shows "0 \<le> L \<and> L \<le> 0x7fffffff \<and> (L \<le> 0 \<longleftrightarrow> L = 0) \<and>
         (r = 0 \<or> (r = L \<and> spec_acceptable (isAuthenticated p) r))"
proof -
  have "0 \<le> L \<and> L < 2 ^ 31"
    using assms(2) spec_length_range [of "mIncomingHeader p"] by (simp add: sint_decodeLength)
  moreover have "r = 0 \<or> (r = L \<and> spec_acceptable (isAuthenticated p) r)"
    using assms(2,3) by (simp add: getIncomingMsgLength_def Let_def unacceptable_iff)
  ultimately show ?thesis by auto
qed

theorem decoded_length_never_negative_witness:
  "length (mIncomingHeader (peerWithHeader [0xff, 0xff, 0xff, 0xff])) = 4 \<and>
   sint (decodeLength (mIncomingHeader (peerWithHeader [0xff, 0xff, 0xff, 0xff]))) = 0x7fffffff \<and>
   fst (getIncomingMsgLength (peerWithHeader [0xff, 0xff, 0xff, 0xff])) = 0"
proof -
  have n: "\<not> spec_acceptable b 0x7fffffff" for b
    by (simp add: spec_acceptable_def MAX_MESSAGE_SIZE_def)
  show ?thesis
    using n decoded_length_never_negative [of "peerWithHeader [0xff, 0xff, 0xff, 0xff]" "0x7fffffff"
        "fst (getIncomingMsgLength (peerWithHeader [0xff, 0xff, 0xff, 0xff]))"]
    by (auto simp add: decode_examples)
qed

section \<open>Properties: sending after close, shutdown and drop\<close>

text \<open>
  Claim C4. A call of \<open>sendMessage\<close> on a peer in state \<open>CLOSING\<close> only logs the
  internal bug: the message is discarded, nothing joins the write queue, no write or flush is
  handed to the socket, and apart from the log the peer is the one before the call.
\<close>
theorem sendMessage_while_closing:
  assumes "mState p = CLOSING"
  shows "sendMessage xdrBytes p =
           p\<lparr>logs := logs p @ [(LVL_ERROR, TryingToSendAfterDrop), (LVL_ERROR, ReportInternalBug)]\<rparr> \<and>
         mState (sendMessage xdrBytes p) = mState p \<and>
         mWriting (sendMessage xdrBytes p) = mWriting p \<and>
         mWriteQueue (sendMessage xdrBytes p) = mWriteQueue p \<and>
         mDelayedShutdown (sendMessage xdrBytes p) = mDelayedShutdown p \<and>
         pendingWrites (sendMessage xdrBytes p) = pendingWrites p \<and>
         sockWrites (sendMessage xdrBytes p) = sockWrites p \<and>
         stripLogs (sendMessage xdrBytes p) = stripLogs p"
  using assms by (simp add: sendMessage_def stripLogs_def)

theorem sendMessage_while_closing_witness:
  "mState closingPeer = CLOSING \<and>
   sendMessage [1, 2, 3] closingPeer =
     closingPeer\<lparr>logs := [(LVL_ERROR, TryingToSendAfterDrop), (LVL_ERROR, ReportInternalBug)]\<rparr> \<and>
   mWriteQueue (sendMessage [1, 2, 3] closingPeer) = [] \<and>
   pendingWrites (sendMessage [1, 2, 3] closingPeer) = []"
proof -
  have c: "mState closingPeer = CLOSING"
    by (simp add: closingPeer_def)
  have l: "logs closingPeer = []" "mWriteQueue closingPeer = []" "pendingWrites closingPeer = []"
    by (simp_all add: closingPeer_def freshPeer_def)
  show ?thesis
    using c l sendMessage_while_closing [OF c, of "[1, 2, 3]"] by simp
qed

lemma stripLogs_runPosted: "stripLogs (runPosted ec p) = stripLogs (runPosted ec (stripLogs p))"
  by (simp add: runPosted_def stripLogs_def shutdownTask_def closeTask_def Let_def
      split: list.split PostedTask.split)

lemma stripLogs_runAllPosted:
  "stripLogs (runAllPosted ecs p) = stripLogs (runAllPosted ecs (stripLogs p))"
proof (induction ecs arbitrary: p)
  case Nil
  show ?case by (simp add: stripLogs_def)
next
  case (Cons ec ecs)
  have "stripLogs (runAllPosted (ec # ecs) p) = stripLogs (runAllPosted ecs (stripLogs (runPosted ec p)))"
    using Cons.IH [of "runPosted ec p"] by simp
  also have "\<dots> = stripLogs (runAllPosted ecs (stripLogs (runPosted ec (stripLogs p))))"
    using stripLogs_runPosted [of ec p] by simp
  also have "\<dots> = stripLogs (runAllPosted (ec # ecs) (stripLogs p))"
    using Cons.IH [of "runPosted ec (stripLogs p)"] by simp
  finally show ?case .
qed

lemma shutdown_twice:
  "shutdown (shutdown p) =
     (shutdown p)\<lparr>logs := logs (shutdown p) @ [(LVL_ERROR, DoubleScheduleOfShutdown), (LVL_ERROR, ReportInternalBug)]\<rparr>"
  by (simp add: shutdown_def)

text \<open>
  Claim C6. The first call of \<open>shutdown\<close> cancels the idle timer, sets
  \<open>mShutdownScheduled\<close> and posts the socket shutdown, whose task posts the close. A call
  with \<open>mShutdownScheduled\<close> set only logs. So a second call changes nothing but the log,
  now and after the posted tasks have run.
\<close>
theorem shutdown_idempotent:
  "(\<not> mShutdownScheduled p \<longrightarrow>
      shutdown p = p\<lparr>idleTimerArmed := False, mShutdownScheduled := True,
                     posted := posted p @ [TaskShutdown]\<rparr>) \<and>
   (mShutdownScheduled p \<longrightarrow>
      shutdown p = p\<lparr>logs := logs p @ [(LVL_ERROR, DoubleScheduleOfShutdown), (LVL_ERROR, ReportInternalBug)]\<rparr>) \<and>
   shutdown (shutdown p) =
     (shutdown p)\<lparr>logs := logs (shutdown p) @ [(LVL_ERROR, DoubleScheduleOfShutdown), (LVL_ERROR, ReportInternalBug)]\<rparr> \<and>
   stripLogs (shutdown (shutdown p)) = stripLogs (shutdown p) \<and>
   stripLogs (runAllPosted ecs (shutdown (shutdown p))) = stripLogs (runAllPosted ecs (shutdown p)) \<and>
   (\<not> mShutdownScheduled p \<and> posted p = [] \<longrightarrow>
      posted (runPosted ec (shutdown p)) = [TaskClose] \<and>
      sockShutdown (runPosted ec (shutdown p)) = (sockShutdown p \<or> ec = 0) \<and>
      sockClosed (runPosted ec (shutdown p)) = sockClosed p \<and>
      posted (runAllPosted [ec, ec2] (shutdown p)) = [] \<and>
      sockClosed (runAllPosted [ec, ec2] (shutdown p)) = (sockClosed p \<or> ec2 = 0))"
proof -
  have s: "stripLogs (shutdown (shutdown p)) = stripLogs (shutdown p)"
    by (simp add: shutdown_twice stripLogs_def)
  have r: "stripLogs (runAllPosted ecs (shutdown (shutdown p))) = stripLogs (runAllPosted ecs (shutdown p))"
    using stripLogs_runAllPosted [of ecs "shutdown (shutdown p)"]
      stripLogs_runAllPosted [of ecs "shutdown p"] s by simp
  have t: "\<not> mShutdownScheduled p \<and> posted p = [] \<longrightarrow>
      posted (runPosted ec (shutdown p)) = [TaskClose] \<and>
      sockShutdown (runPosted ec (shutdown p)) = (sockShutdown p \<or> ec = 0) \<and>
      sockClosed (runPosted ec (shutdown p)) = sockClosed p \<and>
      posted (runAllPosted [ec, ec2] (shutdown p)) = [] \<and>
      sockClosed (runAllPosted [ec, ec2] (shutdown p)) = (sockClosed p \<or> ec2 = 0)"
    by (simp add: shutdown_def runPosted_def shutdownTask_def closeTask_def Let_def)
  show ?thesis
    using s r t shutdown_twice [of p] by (simp add: shutdown_def)
qed

theorem shutdown_idempotent_witness:
  "\<not> mShutdownScheduled freshPeer \<and> posted freshPeer = [] \<and>
   shutdown freshPeer = freshPeer\<lparr>idleTimerArmed := False, mShutdownScheduled := True,
                     posted := posted freshPeer @ [TaskShutdown]\<rparr> \<and>
   stripLogs (shutdown (shutdown freshPeer)) = stripLogs (shutdown freshPeer) \<and>
   posted (runPosted 0 (shutdown freshPeer)) = [TaskClose] \<and>
   posted (runAllPosted [0, 0] (shutdown freshPeer)) = [] \<and>
   sockClosed (runAllPosted [0, 0] (shutdown freshPeer)) = (sockClosed freshPeer \<or> (0 :: int) = 0) \<and>
   mShutdownScheduled (shutdown freshPeer) \<and>
   shutdown (shutdown freshPeer) =
     (shutdown freshPeer)\<lparr>logs := logs (shutdown freshPeer) @
        [(LVL_ERROR, DoubleScheduleOfShutdown), (LVL_ERROR, ReportInternalBug)]\<rparr>"
proof -
  have f: "\<not> mShutdownScheduled freshPeer" "posted freshPeer = []"
    by (simp_all add: freshPeer_def)
  have g: "mShutdownScheduled (shutdown freshPeer)"
    by simp
  from f g shutdown_idempotent [of freshPeer "[0, 0]" 0 0]
    shutdown_idempotent [of "shutdown freshPeer" "[0, 0]" 0 0]
  show ?thesis
    by blast
qed

lemma shutdown_keeps [simp]:
  "mWriting (shutdown p) = mWriting p"
  "mWriteQueue (shutdown p) = mWriteQueue p"
  "pendingWrites (shutdown p) = pendingWrites p"
  "sockWrites (shutdown p) = sockWrites p"
  "mLastWrite (shutdown p) = mLastWrite p"
  "appAborting (shutdown p) = appAborting p"
  "clockNow (shutdown p) = clockNow p"
  by (simp_all add: shutdown_def)

lemma drop_peer_keeps [simp]:
  "mWriting (drop_peer r d m p) = mWriting p"
  "mWriteQueue (drop_peer r d m p) = mWriteQueue p"
  "pendingWrites (drop_peer r d m p) = pendingWrites p"
  "sockWrites (drop_peer r d m p) = sockWrites p"
  "mLastWrite (drop_peer r d m p) = mLastWrite p"
  "appAborting (drop_peer r d m p) = appAborting p"
  "clockNow (drop_peer r d m p) = clockNow p"
  by (simp_all add: drop_peer_def Let_def)

lemma drop_peer_eq:
  "drop_peer r d m p =
     (if shouldAbort p then p
      else if m = IGNORE_WRITE_QUEUE \<or> \<not> mWriting p then shutdown (dropped r d p)
      else (dropped r d p)\<lparr>mDelayedShutdown := True\<rparr>)"
  by (simp add: drop_peer_def dropped_def Let_def)

lemma dropped_fields [simp]:
  "mState (dropped r d p) = CLOSING"
  "inOverlayManager (dropped r d p) = False"
  "mShutdownScheduled (dropped r d p) = mShutdownScheduled p"
  "mWriteQueue (dropped r d p) = mWriteQueue p"
  "mDelayedShutdown (dropped r d p) = mDelayedShutdown p"
  by (simp_all add: dropped_def)

lemma flushCompletion_delayed:
  "mDelayedShutdown q \<Longrightarrow> mWriteQueue q = [] \<Longrightarrow>
     flushCompletion 0 q = shutdown (q\<lparr>mLastWrite := clockNow q, mWriting := False\<rparr>)"
  by (simp add: flushCompletion_def writeHandler_def Let_def)

section \<open>Properties: the write handler and message dispatch\<close>

lemma writeFailed_fields [simp]:
  "mLastWrite (writeFailed p) = clockNow p"
  "mDelayedShutdown (writeFailed p) = mDelayedShutdown p"
  by (simp_all add: writeFailed_def)

lemma writeHandler_eq:
  "writeHandler error n p =
     (if error \<noteq> 0
      then if mDelayedShutdown p then shutdown (writeFailed p)
           else drop_peer ''error during write'' WE_DROPPED_REMOTE IGNORE_WRITE_QUEUE (writeFailed p)
      else if n \<noteq> 0
      then p\<lparr>mLastWrite := clockNow p,
             mMessageWrite := mMessageWrite p + 1,
             mByteWrite := mByteWrite p + n,
             pmMessageWrite := pmMessageWrite p + 1,
             pmByteWrite := pmByteWrite p + n\<rparr>
      else p\<lparr>mLastWrite := clockNow p\<rparr>)"
  by (simp add: writeHandler_def writeFailed_def isConnected_def Let_def)

text \<open>
  Claim C8. \<open>writeHandler\<close> always sets \<open>mLastWrite\<close> to the clock's time. On an error
  code other than 0 it calls \<open>shutdown\<close> when \<open>mDelayedShutdown\<close> is set, and otherwise
  \<open>drop\<close> with reason "error during write", direction \<open>WE_DROPPED_REMOTE\<close> and mode
  \<open>IGNORE_WRITE_QUEUE\<close>. On success the message and byte counters of the overlay and of the
  peer go up exactly when bytes were transferred.
\<close>
theorem writeHandler_cases:
  "mLastWrite (writeHandler error n p) = clockNow p \<and>
   (error \<noteq> 0 \<and> mDelayedShutdown p \<longrightarrow>
      writeHandler error n p = shutdown (writeFailed p)) \<and>
   (error \<noteq> 0 \<and> \<not> mDelayedShutdown p \<longrightarrow>
      writeHandler error n p =
        drop_peer ''error during write'' WE_DROPPED_REMOTE IGNORE_WRITE_QUEUE (writeFailed p)) \<and>
   (error = 0 \<longrightarrow>
      mMessageWrite (writeHandler error n p) = mMessageWrite p + (if n > 0 then 1 else 0) \<and>
      mByteWrite (writeHandler error n p) = mByteWrite p + n \<and>
      pmMessageWrite (writeHandler error n p) = pmMessageWrite p + (if n > 0 then 1 else 0) \<and>
      pmByteWrite (writeHandler error n p) = pmByteWrite p + n \<and>
      (mMessageWrite (writeHandler error n p) \<noteq> mMessageWrite p \<longleftrightarrow> n > 0) \<and>
      (mByteWrite (writeHandler error n p) \<noteq> mByteWrite p \<longleftrightarrow> n > 0) \<and>
      (n = 0 \<longrightarrow> writeHandler error n p = p\<lparr>mLastWrite := clockNow p\<rparr>))"
  by (simp add: writeHandler_eq)

theorem writeHandler_cases_witness:
  "(5 :: int) \<noteq> 0 \<and> \<not> mDelayedShutdown writingPeer \<and>
   writeHandler 5 0 writingPeer =
     drop_peer ''error during write'' WE_DROPPED_REMOTE IGNORE_WRITE_QUEUE (writeFailed writingPeer) \<and>
   mDelayedShutdown (drop_peer ''idle'' WE_DROPPED_REMOTE KEEP_WRITE_QUEUE writingPeer) \<and>
   writeHandler 5 0 (drop_peer ''idle'' WE_DROPPED_REMOTE KEEP_WRITE_QUEUE writingPeer) =
     shutdown (writeFailed (drop_peer ''idle'' WE_DROPPED_REMOTE KEEP_WRITE_QUEUE writingPeer)) \<and>
   mMessageWrite (writeHandler 0 7 writingPeer) = mMessageWrite writingPeer + (if (7 :: nat) > 0 then 1 else 0) \<and>
   mByteWrite (writeHandler 0 7 writingPeer) = mByteWrite writingPeer + 7 \<and>
   writeHandler 0 0 writingPeer = writingPeer\<lparr>mLastWrite := clockNow writingPeer\<rparr>"
proof -
  have a: "(5 :: int) \<noteq> 0" "(0 :: int) = 0" "(0 :: nat) = 0"
    by simp_all
  have b: "\<not> mDelayedShutdown writingPeer"
    by (simp add: writingPeer_def freshPeer_def sendMessage_def messageSender_def Let_def)
  have c: "mDelayedShutdown (drop_peer ''idle'' WE_DROPPED_REMOTE KEEP_WRITE_QUEUE writingPeer)"
    by (simp add: drop_peer_eq writingPeer_def freshPeer_def sendMessage_def messageSender_def
        Let_def shouldAbort_def)
  from a b c
    writeHandler_cases [of 5 0 writingPeer]
    writeHandler_cases [of 5 0 "drop_peer ''idle'' WE_DROPPED_REMOTE KEEP_WRITE_QUEUE writingPeer"]
    writeHandler_cases [of 0 7 writingPeer]
    writeHandler_cases [of 0 0 writingPeer]
  show ?thesis
    by blast
qed

lemma sendMessage_keeps [simp]:
  "mState (sendMessage m p) = mState p"
  "appAborting (sendMessage m p) = appAborting p"
  "inOverlayManager (sendMessage m p) = inOverlayManager p"
  by (simp_all add: sendMessage_def messageSender_def Let_def split: list.split)

lemma sendMessage_queue:
  "mState p \<noteq> CLOSING \<Longrightarrow>
     map mMessage (mWriteQueue (sendMessage m p)) = map mMessage (mWriteQueue p) @ [m]"
  by (cases "mWriteQueue p") (simp_all add: sendMessage_def messageSender_def Let_def)

lemma shouldAbort_sendMessage [simp]: "shouldAbort (sendMessage m p) = shouldAbort p"
  by (simp add: shouldAbort_def)

lemma catchXdrError_eq:
  "catchXdrError E p =
     drop_peer ''received corrupt XDR'' WE_DROPPED_REMOTE IGNORE_WRITE_QUEUE
       (sendMessage (E ERR_DATA ''received corrupt XDR'')
          (p\<lparr>logs := logs p @ [(LVL_ERROR, RecvMessageCorruptXdr)]\<rparr>))"
  by (simp add: catchXdrError_def sendErrorAndDrop_def)

lemma catchXdrError_effect:
  assumes "\<not> shouldAbort p"
  shows "map mMessage (mWriteQueue (catchXdrError E p)) =
           map mMessage (mWriteQueue p) @ [E ERR_DATA ''received corrupt XDR''] \<and>
         mState (catchXdrError E p) = CLOSING \<and>
         \<not> inOverlayManager (catchXdrError E p) \<and>
         mShutdownScheduled (catchXdrError E p)"
proof -
  let ?p1 = "p\<lparr>logs := logs p @ [(LVL_ERROR, RecvMessageCorruptXdr)]\<rparr>"
  have a: "map mMessage (mWriteQueue (sendMessage (E ERR_DATA ''received corrupt XDR'') ?p1)) =
      map mMessage (mWriteQueue p) @ [E ERR_DATA ''received corrupt XDR'']"
    using assms sendMessage_queue [of ?p1 "E ERR_DATA ''received corrupt XDR''"]
    by (simp add: shouldAbort_def)
  have b: "\<not> shouldAbort (sendMessage (E ERR_DATA ''received corrupt XDR'') ?p1)"
    using assms by (simp add: shouldAbort_def)
  show ?thesis
    using a b by (simp add: catchXdrError_eq drop_peer_eq)
qed

text \<open>
  Claim C9, as amended. When the body does not decode into the envelope, \<open>recvMessage\<close>
  logs and calls \<open>sendErrorAndDrop\<close> with \<open>ERR_DATA\<close>, "received corrupt XDR" and
  \<open>IGNORE_WRITE_QUEUE\<close>: the error message is sent and the peer dropped, so a peer that was
  not aborting has the error message at the back of its write queue, is closing, out of the
  overlay manager and has its shutdown scheduled. When the body decodes, the envelope goes
  to the base handler. If the handler returns, the result is the handler's and nothing else:
  no error message and no drop by the transport. If the handler throws an
  \<open>xdr_runtime_error\<close>, the transport sends the same error message and drops the peer in
  the same way, from the state the handler left.
\<close>
theorem recvMessage_cases:
  "(D (mIncomingBody p) = None \<longrightarrow>
      recvMessage D H E p =
        sendErrorAndDrop E ERR_DATA ''received corrupt XDR'' IGNORE_WRITE_QUEUE
          (p\<lparr>logs := logs p @ [(LVL_ERROR, RecvMessageCorruptXdr)]\<rparr>) \<and>
      recvMessage D H E p =
        drop_peer ''received corrupt XDR'' WE_DROPPED_REMOTE IGNORE_WRITE_QUEUE
          (sendMessage (E ERR_DATA ''received corrupt XDR'')
             (p\<lparr>logs := logs p @ [(LVL_ERROR, RecvMessageCorruptXdr)]\<rparr>)) \<and>
      (\<not> shouldAbort p \<longrightarrow>
         map mMessage (mWriteQueue (recvMessage D H E p)) =
           map mMessage (mWriteQueue p) @ [E ERR_DATA ''received corrupt XDR''] \<and>
         mState (recvMessage D H E p) = CLOSING \<and>
         \<not> inOverlayManager (recvMessage D H E p) \<and>
         mShutdownScheduled (recvMessage D H E p))) \<and>
   (\<forall>am q. D (mIncomingBody p) = Some am \<and> H am p = HandlerReturned q \<longrightarrow>
      recvMessage D H E p = q) \<and>
   (\<forall>am q. D (mIncomingBody p) = Some am \<and> H am p = HandlerThrewXdr q \<longrightarrow>
      recvMessage D H E p =
        sendErrorAndDrop E ERR_DATA ''received corrupt XDR'' IGNORE_WRITE_QUEUE
          (q\<lparr>logs := logs q @ [(LVL_ERROR, RecvMessageCorruptXdr)]\<rparr>) \<and>
      recvMessage D H E p =
        drop_peer ''received corrupt XDR'' WE_DROPPED_REMOTE IGNORE_WRITE_QUEUE
          (sendMessage (E ERR_DATA ''received corrupt XDR'')
             (q\<lparr>logs := logs q @ [(LVL_ERROR, RecvMessageCorruptXdr)]\<rparr>)) \<and>
      (\<not> shouldAbort q \<longrightarrow>
         map mMessage (mWriteQueue (recvMessage D H E p)) =
           map mMessage (mWriteQueue q) @ [E ERR_DATA ''received corrupt XDR''] \<and>
         mState (recvMessage D H E p) = CLOSING \<and>
         \<not> inOverlayManager (recvMessage D H E p) \<and>
         mShutdownScheduled (recvMessage D H E p)))"
proof -
  have a: "D (mIncomingBody p) = None \<Longrightarrow> recvMessage D H E p = catchXdrError E p"
    by (simp add: recvMessage_def)
  have b: "D (mIncomingBody p) = Some am \<Longrightarrow> H am p = HandlerReturned q \<Longrightarrow>
      recvMessage D H E p = q" for am q
    by (simp add: recvMessage_def)
  have c: "D (mIncomingBody p) = Some am \<Longrightarrow> H am p = HandlerThrewXdr q \<Longrightarrow>
      recvMessage D H E p = catchXdrError E q" for am q
    by (simp add: recvMessage_def)
  have d: "catchXdrError E r =
      sendErrorAndDrop E ERR_DATA ''received corrupt XDR'' IGNORE_WRITE_QUEUE
        (r\<lparr>logs := logs r @ [(LVL_ERROR, RecvMessageCorruptXdr)]\<rparr>)" for r
    by (simp add: catchXdrError_def)
  show ?thesis
    using a b c catchXdrError_effect [of p E] catchXdrError_effect [of _ E]
    by (auto simp add: d [symmetric] catchXdrError_eq [symmetric])
qed

theorem recvMessage_cases_witness:
  "exampleDecode (mIncomingBody freshPeer) = None \<and> \<not> shouldAbort freshPeer \<and>
   map mMessage (mWriteQueue (recvMessage exampleDecode exampleHandler exampleError freshPeer)) =
     map mMessage (mWriteQueue freshPeer) @ [exampleError ERR_DATA ''received corrupt XDR''] \<and>
   mState (recvMessage exampleDecode exampleHandler exampleError freshPeer) = CLOSING \<and>
   mShutdownScheduled (recvMessage exampleDecode exampleHandler exampleError freshPeer) \<and>
   exampleDecode (mIncomingBody bodyPeer) = Some [1, 2, 3] \<and>
   exampleHandler [1, 2, 3] bodyPeer = HandlerReturned (bodyPeer\<lparr>mMessageRead := 1\<rparr>) \<and>
   recvMessage exampleDecode exampleHandler exampleError bodyPeer = bodyPeer\<lparr>mMessageRead := 1\<rparr> \<and>
   throwingHandler [1, 2, 3] bodyPeer = HandlerThrewXdr bodyPeer \<and> \<not> shouldAbort bodyPeer \<and>
   recvMessage exampleDecode throwingHandler exampleError bodyPeer =
     sendErrorAndDrop exampleError ERR_DATA ''received corrupt XDR'' IGNORE_WRITE_QUEUE
       (bodyPeer\<lparr>logs := logs bodyPeer @ [(LVL_ERROR, RecvMessageCorruptXdr)]\<rparr>) \<and>
   mState (recvMessage exampleDecode throwingHandler exampleError bodyPeer) = CLOSING"
proof -
  have a: "exampleDecode (mIncomingBody freshPeer) = None" "\<not> shouldAbort freshPeer"
    by (simp_all add: exampleDecode_def freshPeer_def shouldAbort_def)
  have b: "exampleDecode (mIncomingBody bodyPeer) = Some [1, 2, 3]"
    "exampleHandler [1, 2, 3] bodyPeer = HandlerReturned (bodyPeer\<lparr>mMessageRead := 1\<rparr>)"
    "throwingHandler [1, 2, 3] bodyPeer = HandlerThrewXdr bodyPeer" "\<not> shouldAbort bodyPeer"
    by (simp_all add: exampleDecode_def exampleHandler_def throwingHandler_def bodyPeer_def
        freshPeer_def shouldAbort_def)
  from a recvMessage_cases [of exampleDecode freshPeer exampleHandler exampleError]
  have w1: "map mMessage (mWriteQueue (recvMessage exampleDecode exampleHandler exampleError freshPeer)) =
      map mMessage (mWriteQueue freshPeer) @ [exampleError ERR_DATA ''received corrupt XDR'']"
    "mState (recvMessage exampleDecode exampleHandler exampleError freshPeer) = CLOSING"
    "mShutdownScheduled (recvMessage exampleDecode exampleHandler exampleError freshPeer)"
    by blast+
  from b recvMessage_cases [of exampleDecode bodyPeer exampleHandler exampleError]
  have w2: "recvMessage exampleDecode exampleHandler exampleError bodyPeer = bodyPeer\<lparr>mMessageRead := 1\<rparr>"
    by blast
  from b recvMessage_cases [of exampleDecode bodyPeer throwingHandler exampleError]
  have w3: "recvMessage exampleDecode throwingHandler exampleError bodyPeer =
      sendErrorAndDrop exampleError ERR_DATA ''received corrupt XDR'' IGNORE_WRITE_QUEUE
        (bodyPeer\<lparr>logs := logs bodyPeer @ [(LVL_ERROR, RecvMessageCorruptXdr)]\<rparr>)"
    "mState (recvMessage exampleDecode throwingHandler exampleError bodyPeer) = CLOSING"
    by blast+
  show ?thesis
    using a b w1 w2 w3 by simp
qed

text \<open>
  The statement of C9 without the amendment fails: the body decodes, the base handler
  throws an \<open>xdr_runtime_error\<close>, and the peer, connected before, is dropped with the error
  message queued and its shutdown scheduled.
\<close>
theorem recvMessage_drops_after_decoding_counterexample:
  "exampleDecode (mIncomingBody bodyPeer) = Some [1, 2, 3] \<and>
   throwingHandler [1, 2, 3] bodyPeer = HandlerThrewXdr bodyPeer \<and>
   mState bodyPeer = CONNECTED \<and>
   mState (recvMessage exampleDecode throwingHandler exampleError bodyPeer) = CLOSING \<and>
   inOverlayManager bodyPeer \<and>
   \<not> inOverlayManager (recvMessage exampleDecode throwingHandler exampleError bodyPeer) \<and>
   mShutdownScheduled (recvMessage exampleDecode throwingHandler exampleError bodyPeer) \<and>
   map mMessage (mWriteQueue (recvMessage exampleDecode throwingHandler exampleError bodyPeer)) =
     [exampleError ERR_DATA ''received corrupt XDR'']"
  by (simp add: recvMessage_def catchXdrError_def sendErrorAndDrop_def exampleDecode_def
      throwingHandler_def bodyPeer_def freshPeer_def sendMessage_def messageSender_def
      drop_peer_def shutdown_def shouldAbort_def Let_def)

section \<open>Properties: the invariant of the write pipeline\<close>

lemma writeFailed_keeps [simp]:
  "mWriting (writeFailed p) = mWriting p"
  "mWriteQueue (writeFailed p) = mWriteQueue p"
  "pendingWrites (writeFailed p) = pendingWrites p"
  "sockWrites (writeFailed p) = sockWrites p"
  "mState (writeFailed p) = mState p"
  by (simp_all add: writeFailed_def)

lemma writeHandler_keeps [simp]:
  "mWriting (writeHandler ec n p) = mWriting p"
  "mWriteQueue (writeHandler ec n p) = mWriteQueue p"
  "pendingWrites (writeHandler ec n p) = pendingWrites p"
  "sockWrites (writeHandler ec n p) = sockWrites p"
  by (simp_all add: writeHandler_eq)

lemma recordWriteTiming_keeps [simp]:
  "mWriting (recordWriteTiming t p) = mWriting p"
  "mWriteQueue (recordWriteTiming t p) = mWriteQueue p"
  "pendingWrites (recordWriteTiming t p) = pendingWrites p"
  "sockWrites (recordWriteTiming t p) = sockWrites p"
  "mState (recordWriteTiming t p) = mState p"
  by (simp_all add: recordWriteTiming_def Let_def)

lemma runPosted_keeps [simp]:
  "mWriting (runPosted ec p) = mWriting p"
  "mWriteQueue (runPosted ec p) = mWriteQueue p"
  "pendingWrites (runPosted ec p) = pendingWrites p"
  "sockWrites (runPosted ec p) = sockWrites p"
  "mState (runPosted ec p) = mState p"
  by (simp_all add: runPosted_def shutdownTask_def closeTask_def Let_def
      split: list.split PostedTask.split)

lemma messageSender_empty:
  "mWriteQueue p = [] \<Longrightarrow>
     messageSender p = p\<lparr>mLastEmpty := clockNow p, pendingWrites := pendingWrites p @ [AsyncFlush]\<rparr>"
  by (simp add: messageSender_def)

lemma messageSender_front:
  "mWriteQueue p = front # rest \<Longrightarrow>
     messageSender p =
       p\<lparr>mWriteQueue := front\<lparr>mIssuedTime := clockNow p\<rparr> # rest,
         sockWrites := sockWrites p @ [mMessage front],
         pendingWrites := pendingWrites p @ [AsyncWrite (front\<lparr>mIssuedTime := clockNow p\<rparr>)]\<rparr>"
  by (simp add: messageSender_def Let_def)

lemma messageSender_keeps [simp]:
  "mWriting (messageSender p) = mWriting p"
  "mState (messageSender p) = mState p"
  by (simp_all add: messageSender_def Let_def split: list.split)

lemma pipeline_ok_idle: "pendingWrites p = [] \<Longrightarrow> pipeline_ok p"
  by (simp add: pipeline_ok_def)

lemma pipeline_ok_messageSender:
  "pendingWrites p = [] \<Longrightarrow> mWriting p \<Longrightarrow> pipeline_ok (messageSender p)"
  by (cases "mWriteQueue p") (simp_all add: messageSender_empty messageSender_front pipeline_ok_def)

lemma offered_messageSender:
  "pendingWrites p = [] \<Longrightarrow> offered (messageSender p) = offered p"
  by (cases "mWriteQueue p") (simp_all add: messageSender_empty messageSender_front offered_def unissued_def)

lemma pending_messageSender:
  "pendingWrites p = [] \<Longrightarrow> pendingWrites (messageSender p) \<noteq> []"
  by (cases "mWriteQueue p") (simp_all add: messageSender_empty messageSender_front)

lemma pipeline_ok_cong:
  "pendingWrites q = pendingWrites p \<Longrightarrow> mWriting q = mWriting p \<Longrightarrow>
   mWriteQueue q = mWriteQueue p \<Longrightarrow> pipeline_ok q = pipeline_ok p"
  by (simp add: pipeline_ok_def split: list.split WriteOp.split)

lemma offered_cong:
  "pendingWrites q = pendingWrites p \<Longrightarrow> sockWrites q = sockWrites p \<Longrightarrow>
   mWriteQueue q = mWriteQueue p \<Longrightarrow> offered q = offered p"
  by (simp add: offered_def unissued_def split: list.split WriteOp.split)

lemma not_writing_idle: "pipeline_ok p \<Longrightarrow> \<not> mWriting p \<Longrightarrow> pendingWrites p = []"
  by (auto simp add: pipeline_ok_def neq_Nil_conv split: list.splits WriteOp.splits)

lemma pipeline_cases:
  assumes "pipeline_ok p"
  obtains "pendingWrites p = []"
  | "pendingWrites p = [AsyncFlush]" "mWriting p"
  | t rest where "pendingWrites p = [AsyncWrite t]" "mWriting p" "mWriteQueue p = t # rest"
  using assms
  by (auto simp add: pipeline_ok_def neq_Nil_conv split: list.splits WriteOp.splits)

lemma sendMessage_closing:
  "mState p = CLOSING \<Longrightarrow>
     pendingWrites (sendMessage m p) = pendingWrites p \<and> mWriting (sendMessage m p) = mWriting p \<and>
     mWriteQueue (sendMessage m p) = mWriteQueue p \<and> sockWrites (sendMessage m p) = sockWrites p"
  by (simp add: sendMessage_def)

lemma sendMessage_writing:
  "mState p \<noteq> CLOSING \<Longrightarrow> mWriting p \<Longrightarrow>
     sendMessage m p =
       p\<lparr>mWriteQueue := mWriteQueue p @
            [\<lparr>mEnqueuedTime = clockNow p, mIssuedTime = 0, mCompletedTime = 0, mMessage = m\<rparr>]\<rparr>"
  by (simp add: sendMessage_def Let_def)

lemma sendMessage_idle:
  "mState p \<noteq> CLOSING \<Longrightarrow> \<not> mWriting p \<Longrightarrow>
     sendMessage m p =
       messageSender (p\<lparr>mWriteQueue := mWriteQueue p @
            [\<lparr>mEnqueuedTime = clockNow p, mIssuedTime = 0, mCompletedTime = 0, mMessage = m\<rparr>],
          mWriting := True\<rparr>)"
  by (simp add: sendMessage_def Let_def)

lemma sendMessage_pipeline:
  assumes "pipeline_ok p"
  shows "pipeline_ok (sendMessage m p) \<and>
         offered (sendMessage m p) = offered p @ (if mState p = CLOSING then [] else [m]) \<and>
         (chain_armed p = mWriting p \<longrightarrow> chain_armed (sendMessage m p) = mWriting (sendMessage m p)) \<and>
         prefix (map mMessage (mWriteQueue p)) (map mMessage (mWriteQueue (sendMessage m p)))"
proof (cases "mState p = CLOSING")
  case True
  note c = sendMessage_closing [OF True, of m]
  show ?thesis
    using assms c True pipeline_ok_cong [of "sendMessage m p" p] offered_cong [of "sendMessage m p" p]
    by (simp add: chain_armed_def)
next
  case False
  show ?thesis
  proof (cases "mWriting p")
    case True
    from assms show ?thesis
    proof (cases rule: pipeline_cases)
      case 1
      then show ?thesis
        using False True
        by (simp add: sendMessage_writing pipeline_ok_def offered_def unissued_def chain_armed_def)
    next
      case 2
      then show ?thesis
        using False True
        by (simp add: sendMessage_writing pipeline_ok_def offered_def unissued_def chain_armed_def)
    next
      case (3 t rest)
      then show ?thesis
        using False True
        by (simp add: sendMessage_writing pipeline_ok_def offered_def unissued_def chain_armed_def)
    qed
  next
    case nw: False
    have idle: "pendingWrites p = []"
      using assms nw by (rule not_writing_idle)
    let ?p1 = "p\<lparr>mWriteQueue := mWriteQueue p @
            [\<lparr>mEnqueuedTime = clockNow p, mIssuedTime = 0, mCompletedTime = 0, mMessage = m\<rparr>],
          mWriting := True\<rparr>"
    have e: "sendMessage m p = messageSender ?p1"
      using False nw by (rule sendMessage_idle)
    have a: "pipeline_ok (messageSender ?p1)"
      by (rule pipeline_ok_messageSender) (simp_all add: idle)
    have b: "offered (messageSender ?p1) = offered p @ [m]"
      using idle by (simp add: offered_messageSender) (simp add: offered_def unissued_def)
    have c: "pendingWrites (messageSender ?p1) \<noteq> []"
      by (rule pending_messageSender) (simp add: idle)
    have d: "map mMessage (mWriteQueue (messageSender ?p1)) = map mMessage (mWriteQueue p) @ [m]"
      by (cases "mWriteQueue p") (simp_all add: messageSender_front)
    show ?thesis
      using a b c d False by (simp add: e chain_armed_def)
  qed
qed

lemma writeHandler_closing: "mState p = CLOSING \<Longrightarrow> mState (writeHandler ec n p) = CLOSING"
  by (simp add: writeHandler_eq drop_peer_eq shouldAbort_def)

lemma drop_peer_closing: "mState p = CLOSING \<Longrightarrow> mState (drop_peer r d m p) = CLOSING"
  by (simp add: drop_peer_eq shouldAbort_def)

lemma flushCompletion_pipeline:
  assumes "pendingWrites p = []" and "mWriting p"
  shows "pipeline_ok (flushCompletion ec p) \<and>
         offered (flushCompletion ec p) = offered p \<and>
         (ec = 0 \<longrightarrow> chain_armed (flushCompletion ec p) = mWriting (flushCompletion ec p)) \<and>
         (mState p = CLOSING \<longrightarrow> mState (flushCompletion ec p) = CLOSING) \<and>
         map mMessage (mWriteQueue (flushCompletion ec p)) = map mMessage (mWriteQueue p)"
proof -
  let ?p1 = "writeHandler ec 0 p"
  have k: "pendingWrites ?p1 = []" "mWriting ?p1" "mWriteQueue ?p1 = mWriteQueue p"
    "sockWrites ?p1 = sockWrites p"
    using assms by simp_all
  have o1: "offered ?p1 = offered p"
    by (rule offered_cong) simp_all
  have c1: "mState p = CLOSING \<Longrightarrow> mState ?p1 = CLOSING"
    by (rule writeHandler_closing)
  show ?thesis
  proof (cases "ec = 0")
    case False
    then have "flushCompletion ec p = ?p1"
      by (simp add: flushCompletion_def Let_def)
    then show ?thesis
      using k o1 c1 False by (simp add: pipeline_ok_idle)
  next
    case True
    show ?thesis
    proof (cases "mWriteQueue p")
      case Nil
      let ?p2 = "?p1\<lparr>mWriting := False\<rparr>"
      have f: "flushCompletion ec p = (if mDelayedShutdown ?p2 then shutdown ?p2 else ?p2)"
        using True Nil by (simp add: flushCompletion_def Let_def)
      have "pendingWrites (flushCompletion ec p) = []" "\<not> mWriting (flushCompletion ec p)"
        "mWriteQueue (flushCompletion ec p) = mWriteQueue p"
        "sockWrites (flushCompletion ec p) = sockWrites p"
        "mState p = CLOSING \<longrightarrow> mState (flushCompletion ec p) = CLOSING"
        using k c1 by (simp_all add: f)
      then show ?thesis
        using assms(1) offered_cong [of "flushCompletion ec p" p]
        by (auto simp add: pipeline_ok_idle chain_armed_def)
    next
      case (Cons front rest)
      have f: "flushCompletion ec p = messageSender ?p1"
        using True Cons by (simp add: flushCompletion_def Let_def)
      have a: "pipeline_ok (messageSender ?p1)"
        using k by (simp add: pipeline_ok_messageSender)
      have b: "offered (messageSender ?p1) = offered p"
        using k o1 by (simp add: offered_messageSender)
      have c: "pendingWrites (messageSender ?p1) \<noteq> []"
        using k by (simp add: pending_messageSender)
      have "mWriteQueue ?p1 = front # rest"
        using Cons by simp
      from messageSender_front [OF this]
      have d: "map mMessage (mWriteQueue (messageSender ?p1)) = map mMessage (mWriteQueue p)"
        using Cons by simp
      have e: "mWriting (messageSender ?p1)" "mState (messageSender ?p1) = mState ?p1"
        using k by simp_all
      show ?thesis
        unfolding f chain_armed_def using a b c d e c1 by auto
    qed
  qed
qed

lemma writeCompletion_pipeline:
  assumes "pendingWrites p = []" and "mWriting p" and "mWriteQueue p = t # rest"
  shows "\<exists>q. writeCompletion t ec n p = Inr q \<and> pipeline_ok q \<and>
           offered q = sockWrites p @ map mMessage rest \<and>
           (ec = 0 \<longrightarrow> chain_armed q = mWriting q) \<and>
           (mState p = CLOSING \<longrightarrow> mState q = CLOSING) \<and>
           map mMessage (mWriteQueue q) = map mMessage rest"
proof -
  let ?p1 = "writeHandler ec n p"
  let ?p2 = "recordWriteTiming (t\<lparr>mCompletedTime := clockNow ?p1\<rparr>) ?p1"
  let ?p3 = "?p2\<lparr>mWriteQueue := rest\<rparr>"
  have k: "pendingWrites ?p3 = []" "mWriting ?p3" "mWriteQueue ?p3 = rest"
    "sockWrites ?p3 = sockWrites p"
    using assms by simp_all
  have c1: "mState p = CLOSING \<Longrightarrow> mState ?p3 = CLOSING"
    by (simp add: writeHandler_closing)
  have w: "writeCompletion t ec n p = Inr (if ec = 0 then messageSender ?p3 else ?p3)"
    using assms(3) by (simp add: writeCompletion_def Let_def)
  have o3: "offered ?p3 = sockWrites p @ map mMessage rest"
    using k by (simp add: offered_def unissued_def)
  show ?thesis
  proof (cases "ec = 0")
    case False
    then show ?thesis
      using w k c1 o3 by (simp add: pipeline_ok_idle)
  next
    case True
    have a: "pipeline_ok (messageSender ?p3)"
      using k by (simp add: pipeline_ok_messageSender)
    have b: "offered (messageSender ?p3) = sockWrites p @ map mMessage rest"
      using k o3 by (simp add: offered_messageSender)
    have c: "pendingWrites (messageSender ?p3) \<noteq> []"
      using k by (simp add: pending_messageSender)
    have d: "map mMessage (mWriteQueue (messageSender ?p3)) = map mMessage rest"
    proof (cases rest)
      case Nil
      then show ?thesis using k by (simp add: messageSender_empty)
    next
      case (Cons r rs)
      have "mWriteQueue ?p3 = r # rs"
        using Cons by simp
      from messageSender_front [OF this] show ?thesis
        using Cons by simp
    qed
    have e: "mWriting (messageSender ?p3)" "mState (messageSender ?p3) = mState ?p3"
      using k by simp_all
    have w0: "writeCompletion t ec n p = Inr (messageSender ?p3)"
      using w True by simp
    show ?thesis
      unfolding w0 chain_armed_def using a b c d e c1 by auto
  qed
qed

lemma completeWrite_pipeline:
  assumes "pipeline_ok p"
  shows "\<exists>q. completeWrite ec n p = Inr q \<and> pipeline_ok q \<and> offered q = offered p \<and>
           (ec = 0 \<longrightarrow> chain_armed p = mWriting p \<longrightarrow> chain_armed q = mWriting q) \<and>
           (mState p = CLOSING \<longrightarrow> mState q = CLOSING) \<and>
           queue_step (EvComplete ec n) p q"
  using assms
proof (cases rule: pipeline_cases)
  case 1
  then show ?thesis
    using assms by (simp add: completeWrite_def queue_step_def popsFront_def)
next
  case 2
  let ?p0 = "p\<lparr>pendingWrites := []\<rparr>"
  have c: "completeWrite ec n p = Inr (flushCompletion ec ?p0)"
    using 2 by (simp add: completeWrite_def)
  have o: "offered ?p0 = offered p"
    using 2 by (simp add: offered_def unissued_def)
  have "pendingWrites ?p0 = []" "mWriting ?p0"
    using 2 by simp_all
  from flushCompletion_pipeline [OF this, of ec] show ?thesis
    using 2 o by (simp add: c queue_step_def popsFront_def)
next
  case (3 t rest)
  let ?p0 = "p\<lparr>pendingWrites := []\<rparr>"
  have c: "completeWrite ec n p = writeCompletion t ec n ?p0"
    using 3 by (simp add: completeWrite_def)
  have o: "offered p = sockWrites ?p0 @ map mMessage rest"
    using 3 by (simp add: offered_def unissued_def)
  have "pendingWrites ?p0 = []" "mWriting ?p0" "mWriteQueue ?p0 = t # rest"
    using 3 by simp_all
  from writeCompletion_pipeline [OF this, of ec n] obtain q where
    q: "writeCompletion t ec n ?p0 = Inr q" "pipeline_ok q"
       "offered q = sockWrites ?p0 @ map mMessage rest"
       "ec = 0 \<longrightarrow> chain_armed q = mWriting q"
       "mState ?p0 = CLOSING \<longrightarrow> mState q = CLOSING"
       "map mMessage (mWriteQueue q) = map mMessage rest"
    by blast
  have "queue_step (EvComplete ec n) p q"
    using 3 q(6) by (simp add: queue_step_def popsFront_def)
  then show ?thesis
    using q o by (simp add: c)
qed

lemma step_pipeline:
  assumes "pipeline_ok p"
  shows "\<exists>q. step e p = Inr q \<and> pipeline_ok q \<and> offered q = offered p @ accepted e p \<and>
           (succeeds e \<longrightarrow> chain_armed p = mWriting p \<longrightarrow> chain_armed q = mWriting q) \<and>
           (mState p = CLOSING \<longrightarrow> mState q = CLOSING) \<and>
           queue_step e p q"
proof (cases e)
  case (EvSend m)
  then show ?thesis
    using sendMessage_pipeline [OF assms, of m]
    by (simp add: step_def accepted_def succeeds_def queue_step_def popsFront_def)
next
  case (EvComplete ec n)
  then show ?thesis
    using completeWrite_pipeline [OF assms, of ec n]
    by (simp add: step_def accepted_def succeeds_def)
next
  case (EvDrop r d m)
  have "pipeline_ok (drop_peer r d m p) = pipeline_ok p" "offered (drop_peer r d m p) = offered p"
    by (rule pipeline_ok_cong, simp_all) (rule offered_cong, simp_all)
  then show ?thesis
    using EvDrop assms drop_peer_closing [of p r d m]
    by (simp add: step_def accepted_def succeeds_def queue_step_def popsFront_def chain_armed_def)
next
  case (EvPosted ec)
  have "pipeline_ok (runPosted ec p) = pipeline_ok p" "offered (runPosted ec p) = offered p"
    by (rule pipeline_ok_cong, simp_all) (rule offered_cong, simp_all)
  then show ?thesis
    using EvPosted assms
    by (simp add: step_def accepted_def succeeds_def queue_step_def popsFront_def chain_armed_def)
next
  case (EvClock t)
  have "pipeline_ok (p\<lparr>clockNow := t\<rparr>) = pipeline_ok p" "offered (p\<lparr>clockNow := t\<rparr>) = offered p"
    by (rule pipeline_ok_cong, simp_all) (rule offered_cong, simp_all)
  then show ?thesis
    using EvClock assms
    by (simp add: step_def accepted_def succeeds_def queue_step_def popsFront_def chain_armed_def)
qed

lemma payloadsSent_Cons: "payloadsSent (e # es) = payloadsSent [e] @ payloadsSent es"
  by (cases e) simp_all

lemma accepted_eq: "accepted e p = (if mState p = CLOSING then [] else payloadsSent [e])"
  by (cases e) (simp_all add: accepted_def)

lemma noFailedCompletion_Cons: "noFailedCompletion (e # es) = (succeeds e \<and> noFailedCompletion es)"
  by (cases e) (simp_all add: succeeds_def)

lemma run_pipeline:
  "pipeline_ok p \<Longrightarrow> prefix (offered p) hist \<Longrightarrow> (mState p \<noteq> CLOSING \<longrightarrow> offered p = hist) \<Longrightarrow>
     \<exists>q. run evs p = Inr q \<and> pipeline_ok q \<and> prefix (offered q) (hist @ payloadsSent evs) \<and>
         (mState q \<noteq> CLOSING \<longrightarrow> offered q = hist @ payloadsSent evs)"
proof (induction evs arbitrary: p hist)
  case Nil
  then show ?case by simp
next
  case (Cons e es)
  from step_pipeline [OF Cons.prems(1), of e] obtain q1 where
    q1: "step e p = Inr q1" "pipeline_ok q1" "offered q1 = offered p @ accepted e p"
        "mState p = CLOSING \<longrightarrow> mState q1 = CLOSING"
    by blast
  let ?h = "hist @ payloadsSent [e]"
  have a: "prefix (offered q1) ?h"
    using Cons.prems(2,3) q1(3) by (auto simp add: accepted_eq)
  have b: "mState q1 \<noteq> CLOSING \<longrightarrow> offered q1 = ?h"
    using Cons.prems(3) q1(3,4) by (auto simp add: accepted_eq)
  from Cons.IH [OF q1(2) a b] show ?case
    using q1(1) by (simp add: payloadsSent_Cons [of e es])
qed

lemma run_chain_armed:
  "pipeline_ok p \<Longrightarrow> chain_armed p = mWriting p \<Longrightarrow> noFailedCompletion evs \<Longrightarrow>
     \<exists>q. run evs p = Inr q \<and> chain_armed q = mWriting q"
proof (induction evs arbitrary: p)
  case Nil
  then show ?case by simp
next
  case (Cons e es)
  from step_pipeline [OF Cons.prems(1), of e] obtain q1 where
    q1: "step e p = Inr q1" "pipeline_ok q1"
        "succeeds e \<longrightarrow> chain_armed p = mWriting p \<longrightarrow> chain_armed q1 = mWriting q1"
    by blast
  have "chain_armed q1 = mWriting q1" "noFailedCompletion es"
    using q1(3) Cons.prems(2,3) by (simp_all add: noFailedCompletion_Cons)
  from Cons.IH [OF q1(2) this] show ?case
    using q1(1) by simp
qed

lemma pipeline_ok_iff:
  "pipeline_ok q \<longleftrightarrow>
     length (pendingWrites q) \<le> 1 \<and> (pendingWrites q \<noteq> [] \<longrightarrow> mWriting q) \<and>
     (\<forall>t. AsyncWrite t \<in> set (pendingWrites q) \<longrightarrow> mWriteQueue q \<noteq> [] \<and> hd (mWriteQueue q) = t)"
  by (auto simp add: pipeline_ok_def neq_Nil_conv split: list.splits WriteOp.splits)

lemma writeIdle_start:
  "writeIdle p \<Longrightarrow> pipeline_ok p \<and> offered p = [] \<and> chain_armed p = mWriting p"
  by (simp add: writeIdle_def pipeline_ok_def offered_def unissued_def chain_armed_def)

lemma failed_completion:
  assumes "pipeline_ok p" and "pendingWrites p \<noteq> []" and "ec \<noteq> 0"
  shows "\<exists>q. step (EvComplete ec n) p = Inr q \<and> mWriting q \<and> pendingWrites q = []"
  using assms(1)
proof (cases rule: pipeline_cases)
  case 1
  then show ?thesis using assms(2) by simp
next
  case 2
  then show ?thesis
    using assms(3) by (simp add: step_def completeWrite_def flushCompletion_def Let_def)
next
  case (3 t rest)
  then show ?thesis
    using assms(3) by (simp add: step_def completeWrite_def writeCompletion_def Let_def)
qed

lemma stuck_step:
  assumes "mWriting p" and "pendingWrites p = []"
  shows "\<exists>q. step e p = Inr q \<and> mWriting q \<and> pendingWrites q = []"
proof (cases e)
  case (EvSend m)
  show ?thesis
  proof (cases "mState p = CLOSING")
    case True
    then show ?thesis
      using assms EvSend sendMessage_closing [OF True, of m] by (simp add: step_def)
  next
    case False
    then show ?thesis
      using assms EvSend by (simp add: step_def sendMessage_writing)
  qed
next
  case (EvComplete ec n)
  then show ?thesis
    using assms by (simp add: step_def completeWrite_def)
next
  case (EvDrop r d m)
  then show ?thesis
    using assms by (simp add: step_def)
next
  case (EvPosted ec)
  then show ?thesis
    using assms by (simp add: step_def)
next
  case (EvClock t)
  then show ?thesis
    using assms by (simp add: step_def)
qed

lemma stuck_run:
  "mWriting p \<Longrightarrow> pendingWrites p = [] \<Longrightarrow>
     \<exists>q. run evs p = Inr q \<and> mWriting q \<and> pendingWrites q = []"
proof (induction evs arbitrary: p)
  case Nil
  then show ?case by simp
next
  case (Cons e es)
  from stuck_step [OF Cons.prems, of e] obtain q1 where
    q1: "step e p = Inr q1" "mWriting q1" "pendingWrites q1 = []"
    by blast
  from Cons.IH [OF q1(2,3)] show ?case
    using q1(1) by simp
qed

lemma failed_completion_run:
  assumes "pipeline_ok p" and "pendingWrites p \<noteq> []" and "ec \<noteq> 0"
  shows "\<exists>q. run (EvComplete ec n # evs) p = Inr q \<and> mWriting q \<and> pendingWrites q = []"
proof -
  from failed_completion [OF assms, of n] obtain q1 where
    q1: "step (EvComplete ec n) p = Inr q1" "mWriting q1" "pendingWrites q1 = []"
    by blast
  from stuck_run [OF q1(2,3), of evs] show ?thesis
    using q1(1) by simp
qed

lemma run_twoMessages:
  "run twoMessages freshPeer =
     Inr (freshPeer\<lparr>sockWrites := [[1], [2, 2]],
            mMessageWrite := 2, mByteWrite := 3, pmMessageWrite := 2, pmByteWrite := 3,
            mMessageDelayInWriteQueueTimer := [0, 0],
            mMessageDelayInAsyncWriteTimer := [0, 0]\<rparr>)"
  by (simp add: twoMessages_def step_def freshPeer_def sendMessage_def messageSender_def
      completeWrite_def writeCompletion_def flushCompletion_def writeHandler_def
      recordWriteTiming_def Let_def)

lemma writingPeer_eq:
  "writingPeer =
     freshPeer\<lparr>mWriteQueue := [\<lparr>mEnqueuedTime = 0, mIssuedTime = 0, mCompletedTime = 0, mMessage = [1, 2, 3]\<rparr>],
       mWriting := True,
       sockWrites := [[1, 2, 3]],
       pendingWrites := [AsyncWrite \<lparr>mEnqueuedTime = 0, mIssuedTime = 0, mCompletedTime = 0, mMessage = [1, 2, 3]\<rparr>]\<rparr>"
  by (simp add: writingPeer_def freshPeer_def sendMessage_def messageSender_def Let_def)

text \<open>
  Claim C5, as amended. From a peer whose write pipeline is unused, every sequence of
  \<open>sendMessage\<close> calls, write and flush completions (failed ones too), drops, posted tasks
  and clock changes runs without popping an empty queue and leaves the pipeline with: at
  most one write-side operation in flight; \<open>mWriting\<close> set whenever one is in flight, and
  set only then as long as no completion has failed; a completion that fails with an
  operation in flight leaving nothing in flight and \<open>mWriting\<close> set, and so it stays
  whatever follows; a write in flight being that of the record at the front of the queue;
  the queue losing a record only at the completion of a write, and then the front record,
  whose write it was; and the payloads given to the socket being a prefix of the payloads
  sent, in order, with nothing left out while the peer is not closing.
\<close>
theorem write_pipeline_invariant:
  assumes "writeIdle p"
  shows "\<exists>q. run evs p = Inr q \<and>
           length (pendingWrites q) \<le> 1 \<and>
           (pendingWrites q \<noteq> [] \<longrightarrow> mWriting q) \<and>
           (noFailedCompletion evs \<longrightarrow> (mWriting q \<longleftrightarrow> pendingWrites q \<noteq> [])) \<and>
           (\<forall>ec n more. ec \<noteq> 0 \<and> pendingWrites q \<noteq> [] \<longrightarrow>
              (\<exists>q'. run (EvComplete ec n # more) q = Inr q' \<and>
                    mWriting q' \<and> pendingWrites q' = [])) \<and>
           (\<forall>t. AsyncWrite t \<in> set (pendingWrites q) \<longrightarrow>
                  mWriteQueue q \<noteq> [] \<and> hd (mWriteQueue q) = t) \<and>
           (\<forall>e. \<exists>q'. step e q = Inr q' \<and> queue_step e q q') \<and>
           prefix (sockWrites q) (payloadsSent evs) \<and>
           (mState q \<noteq> CLOSING \<longrightarrow>
              sockWrites q @ map mMessage (unissued q) = payloadsSent evs)"
proof -
  note s = writeIdle_start [OF assms]
  have "prefix (offered p) []" "mState p \<noteq> CLOSING \<longrightarrow> offered p = []"
    using s by simp_all
  with run_pipeline [of p "[]" evs] s obtain q where
    q: "run evs p = Inr q" "pipeline_ok q" "prefix (offered q) (payloadsSent evs)"
       "mState q \<noteq> CLOSING \<longrightarrow> offered q = payloadsSent evs"
    by auto
  have t: "noFailedCompletion evs \<longrightarrow> chain_armed q = mWriting q"
    using run_chain_armed [of p evs] s q(1) by auto
  have u: "\<forall>e. \<exists>q'. step e q = Inr q' \<and> queue_step e q q'"
    using step_pipeline [OF q(2)] by blast
  have v: "prefix (sockWrites q) (payloadsSent evs)"
    using q(3) by (auto simp add: offered_def prefix_def)
  have w: "\<forall>ec n more. ec \<noteq> 0 \<and> pendingWrites q \<noteq> [] \<longrightarrow>
      (\<exists>q'. run (EvComplete ec n # more) q = Inr q' \<and> mWriting q' \<and> pendingWrites q' = [])"
    using failed_completion_run [OF q(2)] by blast
  have x: "length (pendingWrites q) \<le> 1" "pendingWrites q \<noteq> [] \<longrightarrow> mWriting q"
    "\<forall>t. AsyncWrite t \<in> set (pendingWrites q) \<longrightarrow> mWriteQueue q \<noteq> [] \<and> hd (mWriteQueue q) = t"
    using q(2) [unfolded pipeline_ok_iff] by blast+
  have y: "noFailedCompletion evs \<longrightarrow> (mWriting q \<longleftrightarrow> pendingWrites q \<noteq> [])"
    using t by (auto simp add: chain_armed_def)
  have z: "mState q \<noteq> CLOSING \<longrightarrow> sockWrites q @ map mMessage (unissued q) = payloadsSent evs"
    using q(4) by (simp add: offered_def)
  from q(1) x y w u v z show ?thesis
    by blast
qed

theorem write_pipeline_invariant_witness:
  "writeIdle freshPeer \<and> noFailedCompletion twoMessages \<and>
   (\<exists>q. run twoMessages freshPeer = Inr q \<and> pendingWrites q = [] \<and> \<not> mWriting q \<and>
        mState q \<noteq> CLOSING \<and> sockWrites q = [[1], [2, 2]] \<and>
        prefix (sockWrites q) (payloadsSent twoMessages) \<and>
        sockWrites q @ map mMessage (unissued q) = payloadsSent twoMessages) \<and>
   run oneMessage freshPeer = Inr writingPeer \<and>
   pendingWrites writingPeer \<noteq> [] \<and> mWriting writingPeer \<and>
   AsyncWrite (hd (mWriteQueue writingPeer)) \<in> set (pendingWrites writingPeer) \<and>
   length (pendingWrites writingPeer) \<le> 1 \<and>
   (5 :: int) \<noteq> 0 \<and>
   (\<exists>q'. run [EvComplete 5 0, EvSend [4], EvComplete 0 0] writingPeer = Inr q' \<and>
         mWriting q' \<and> pendingWrites q' = [])"
proof -
  have a: "writeIdle freshPeer"
    by (simp add: writeIdle_def freshPeer_def)
  have b: "noFailedCompletion twoMessages"
    by (simp add: twoMessages_def)
  from write_pipeline_invariant [OF a, of twoMessages] obtain q where
    q: "run twoMessages freshPeer = Inr q"
       "noFailedCompletion twoMessages \<longrightarrow> (mWriting q \<longleftrightarrow> pendingWrites q \<noteq> [])"
       "prefix (sockWrites q) (payloadsSent twoMessages)"
       "mState q \<noteq> CLOSING \<longrightarrow> sockWrites q @ map mMessage (unissued q) = payloadsSent twoMessages"
    by blast
  have c: "pendingWrites q = []" "mState q \<noteq> CLOSING" "sockWrites q = [[1], [2, 2]]"
    using q(1) [unfolded run_twoMessages] by (auto simp add: freshPeer_def)
  have d: "run oneMessage freshPeer = Inr writingPeer"
    by (simp add: oneMessage_def step_def writingPeer_def)
  have e: "pendingWrites writingPeer \<noteq> []"
    "AsyncWrite (hd (mWriteQueue writingPeer)) \<in> set (pendingWrites writingPeer)"
    by (simp_all add: writingPeer_eq)
  from write_pipeline_invariant [OF a, of oneMessage] d
  have f: "length (pendingWrites writingPeer) \<le> 1"
    "pendingWrites writingPeer \<noteq> [] \<longrightarrow> mWriting writingPeer"
    "\<forall>ec n more. ec \<noteq> 0 \<and> pendingWrites writingPeer \<noteq> [] \<longrightarrow>
      (\<exists>q'. run (EvComplete ec n # more) writingPeer = Inr q' \<and> mWriting q' \<and> pendingWrites q' = [])"
    by auto
  have g: "(5 :: int) \<noteq> 0"
    by simp
  from f(3) [rule_format, of 5 0 "[EvSend [4], EvComplete 0 0]"] g e(1)
  have h: "\<exists>q'. run [EvComplete 5 0, EvSend [4], EvComplete 0 0] writingPeer = Inr q' \<and>
         mWriting q' \<and> pendingWrites q' = []"
    by blast
  show ?thesis
    using a b c d e f(1,2) g h q by blast
qed

text \<open>
  The statement of C5 without the amendment fails: after one message is sent and its write
  completes with an error, \<open>mWriting\<close> is still set and no write or flush is in flight.
\<close>
theorem mWriting_after_failed_write_counterexample:
  "writeIdle freshPeer \<and> run failedWrite freshPeer = Inr afterFailedWrite \<and>
   mWriting afterFailedWrite \<and> pendingWrites afterFailedWrite = []"
  by (simp add: failedWrite_def afterFailedWrite_def writeIdle_def step_def freshPeer_def
      sendMessage_def messageSender_def completeWrite_def writeCompletion_def writeHandler_def
      recordWriteTiming_def drop_peer_def shutdown_def shouldAbort_def isConnected_def Let_def)

section \<open>Properties: delayed shutdown when the queue drains\<close>

lemma writeHandler_success:
  "writeHandler 0 n p =
     (if n \<noteq> 0
      then p\<lparr>mLastWrite := clockNow p,
             mMessageWrite := mMessageWrite p + 1,
             mByteWrite := mByteWrite p + n,
             pmMessageWrite := pmMessageWrite p + 1,
             pmByteWrite := pmByteWrite p + n\<rparr>
      else p\<lparr>mLastWrite := clockNow p\<rparr>)"
  by (simp add: writeHandler_eq)

lemma writeHandler_success_keeps [simp]:
  "mDelayedShutdown (writeHandler 0 n p) = mDelayedShutdown p"
  "mShutdownScheduled (writeHandler 0 n p) = mShutdownScheduled p"
  "posted (writeHandler 0 n p) = posted p"
  "mState (writeHandler 0 n p) = mState p"
  by (simp_all add: writeHandler_success)

lemma recordWriteTiming_keeps2 [simp]:
  "mDelayedShutdown (recordWriteTiming t p) = mDelayedShutdown p"
  "mShutdownScheduled (recordWriteTiming t p) = mShutdownScheduled p"
  "posted (recordWriteTiming t p) = posted p"
  by (simp_all add: recordWriteTiming_def Let_def)

lemma messageSender_keeps2 [simp]:
  "mDelayedShutdown (messageSender p) = mDelayedShutdown p"
  "mShutdownScheduled (messageSender p) = mShutdownScheduled p"
  "posted (messageSender p) = posted p"
  by (simp_all add: messageSender_def Let_def split: list.split)

lemma drain_step:
  assumes "pipeline_ok p" and "pendingWrites p \<noteq> []" and "mDelayedShutdown p"
    and "\<not> mShutdownScheduled p"
  shows "\<exists>q. step (EvComplete 0 n) p = Inr q \<and> pipeline_ok q \<and> offered q = offered p \<and>
           mDelayedShutdown q \<and>
           (if drainSteps p = 1
            then mShutdownScheduled q \<and> \<not> mWriting q \<and> pendingWrites q = [] \<and>
                 mWriteQueue q = [] \<and> posted q = posted p @ [TaskShutdown]
            else \<not> mShutdownScheduled q \<and> posted q = posted p \<and> pendingWrites q \<noteq> [] \<and>
                 Suc (drainSteps q) = drainSteps p)"
  using assms(1)
proof (cases rule: pipeline_cases)
  case 1
  then show ?thesis using assms(2) by simp
next
  case 2
  let ?p0 = "p\<lparr>pendingWrites := []\<rparr>"
  let ?p1 = "writeHandler 0 0 ?p0"
  have s: "step (EvComplete 0 n) p = Inr (flushCompletion 0 ?p0)"
    using 2 by (simp add: step_def completeWrite_def)
  have k: "pendingWrites ?p0 = []" "mWriting ?p0"
    using 2 by simp_all
  note f = flushCompletion_pipeline [OF k, of 0]
  have o: "offered ?p0 = offered p"
    using 2 by (simp add: offered_def unissued_def)
  show ?thesis
  proof (cases "mWriteQueue p")
    case Nil
    have e: "flushCompletion 0 ?p0 = shutdown (?p1\<lparr>mWriting := False\<rparr>)"
      using Nil assms(3) by (simp add: flushCompletion_def Let_def)
    have d: "drainSteps p = 1"
      using 2 Nil by (simp add: drainSteps_def)
    have "mShutdownScheduled (flushCompletion 0 ?p0)" "\<not> mWriting (flushCompletion 0 ?p0)"
      "pendingWrites (flushCompletion 0 ?p0) = []" "mWriteQueue (flushCompletion 0 ?p0) = []"
      "posted (flushCompletion 0 ?p0) = posted p @ [TaskShutdown]"
      "mDelayedShutdown (flushCompletion 0 ?p0)"
      using Nil assms(3,4) by (simp_all add: e) (simp add: shutdown_def)
    then show ?thesis
      using f o d by (simp add: s)
  next
    case (Cons front rest)
    have e: "flushCompletion 0 ?p0 = messageSender ?p1"
      using Cons by (simp add: flushCompletion_def Let_def)
    have q: "mWriteQueue ?p1 = front # rest"
      using Cons by simp
    have d: "drainSteps p = length rest + 3"
      using 2 Cons by (simp add: drainSteps_def)
    have d': "drainSteps (messageSender ?p1) = length rest + 2"
      by (simp add: messageSender_front [OF q] drainSteps_def)
    have "\<not> mShutdownScheduled (messageSender ?p1)" "posted (messageSender ?p1) = posted p"
      "pendingWrites (messageSender ?p1) \<noteq> []" "mDelayedShutdown (messageSender ?p1)"
      using assms(3,4) by (simp_all add: pending_messageSender)
    then show ?thesis
      using f o d d' by (simp add: s e)
  qed
next
  case (3 t rest)
  let ?p0 = "p\<lparr>pendingWrites := []\<rparr>"
  let ?p1 = "writeHandler 0 n ?p0"
  let ?p3 = "(recordWriteTiming (t\<lparr>mCompletedTime := clockNow ?p1\<rparr>) ?p1)\<lparr>mWriteQueue := rest\<rparr>"
  have w: "step (EvComplete 0 n) p = Inr (messageSender ?p3)"
    using 3 by (simp add: step_def completeWrite_def writeCompletion_def Let_def)
  have k: "pendingWrites ?p0 = []" "mWriting ?p0" "mWriteQueue ?p0 = t # rest"
    using 3 by simp_all
  from writeCompletion_pipeline [OF k, of 0 n]
  have f: "pipeline_ok (messageSender ?p3)"
    "offered (messageSender ?p3) = sockWrites p @ map mMessage rest"
    using 3 by (simp_all add: writeCompletion_def Let_def)
  have o: "offered p = sockWrites p @ map mMessage rest"
    using 3 by (simp add: offered_def unissued_def)
  have d: "drainSteps p = length rest + 2"
    using 3 by (simp add: drainSteps_def)
  have d': "drainSteps (messageSender ?p3) = length rest + 1"
  proof (cases rest)
    case Nil
    then show ?thesis by (simp add: messageSender_empty drainSteps_def)
  next
    case (Cons r rs)
    have "mWriteQueue ?p3 = r # rs" using Cons by simp
    from messageSender_front [OF this] show ?thesis
      using Cons by (simp add: drainSteps_def)
  qed
  have "\<not> mShutdownScheduled (messageSender ?p3)" "posted (messageSender ?p3) = posted p"
    "pendingWrites (messageSender ?p3) \<noteq> []" "mDelayedShutdown (messageSender ?p3)"
    using assms(3,4) by (simp_all add: pending_messageSender)
  then show ?thesis
    using f o d d' by (simp add: w)
qed

lemma drain_run:
  "pipeline_ok p \<Longrightarrow> pendingWrites p \<noteq> [] \<Longrightarrow> mDelayedShutdown p \<Longrightarrow> \<not> mShutdownScheduled p \<Longrightarrow>
   length lens \<le> drainSteps p \<Longrightarrow>
     \<exists>q. run (successes lens) p = Inr q \<and>
         (if length lens = drainSteps p
          then mShutdownScheduled q \<and> \<not> mWriting q \<and> pendingWrites q = [] \<and>
               mWriteQueue q = [] \<and> posted q = posted p @ [TaskShutdown] \<and>
               sockWrites q = sockWrites p @ map mMessage (unissued p)
          else \<not> mShutdownScheduled q \<and> posted q = posted p \<and> pendingWrites q \<noteq> [])"
proof (induction lens arbitrary: p)
  case Nil
  have "drainSteps p \<noteq> 0"
    using Nil.prems(2) by (simp add: drainSteps_def split: list.split WriteOp.split)
  then show ?case
    using Nil.prems by (simp add: successes_def)
next
  case (Cons n lens)
  from drain_step [OF Cons.prems(1-4), of n] obtain q1 where
    q1: "step (EvComplete 0 n) p = Inr q1" "pipeline_ok q1" "offered q1 = offered p"
        "mDelayedShutdown q1"
        "if drainSteps p = 1
         then mShutdownScheduled q1 \<and> \<not> mWriting q1 \<and> pendingWrites q1 = [] \<and>
              mWriteQueue q1 = [] \<and> posted q1 = posted p @ [TaskShutdown]
         else \<not> mShutdownScheduled q1 \<and> posted q1 = posted p \<and> pendingWrites q1 \<noteq> [] \<and>
              Suc (drainSteps q1) = drainSteps p"
    by blast
  have r: "run (successes (n # lens)) p = run (successes lens) q1"
    using q1(1) by (simp add: successes_def)
  show ?case
  proof (cases "drainSteps p = 1")
    case True
    then have l: "lens = []"
      using Cons.prems(5) by simp
    have "sockWrites q1 = offered q1"
      using q1(5) True by (simp add: offered_def unissued_def)
    then show ?thesis
      using True q1 l r by (simp add: offered_def successes_def)
  next
    case False
    then have a: "\<not> mShutdownScheduled q1" "posted q1 = posted p" "pendingWrites q1 \<noteq> []"
      "Suc (drainSteps q1) = drainSteps p"
      using q1(5) by simp_all
    have b: "length lens \<le> drainSteps q1"
      using a(4) Cons.prems(5) by simp
    from Cons.IH [OF q1(2) a(3) q1(4) a(1) b] obtain q where
      q: "run (successes lens) q1 = Inr q"
         "if length lens = drainSteps q1
          then mShutdownScheduled q \<and> \<not> mWriting q \<and> pendingWrites q = [] \<and>
               mWriteQueue q = [] \<and> posted q = posted q1 @ [TaskShutdown] \<and>
               sockWrites q = sockWrites q1 @ map mMessage (unissued q1)
          else \<not> mShutdownScheduled q \<and> posted q = posted q1 \<and> pendingWrites q \<noteq> []"
      by blast
    have c: "sockWrites q1 @ map mMessage (unissued q1) = sockWrites p @ map mMessage (unissued p)"
      using q1(3) by (simp add: offered_def)
    show ?thesis
      using q a c by (auto simp add: r)
  qed
qed

lemma dropped_keeps [simp]:
  "pendingWrites (dropped r d p) = pendingWrites p"
  "mWriting (dropped r d p) = mWriting p"
  "sockWrites (dropped r d p) = sockWrites p"
  "posted (dropped r d p) = posted p"
  by (simp_all add: dropped_def)

lemma drainSteps_cong:
  "pendingWrites q = pendingWrites p \<Longrightarrow> mWriteQueue q = mWriteQueue p \<Longrightarrow>
     drainSteps q = drainSteps p"
  by (simp add: drainSteps_def split: list.split WriteOp.split)

lemma unissued_cong:
  "pendingWrites q = pendingWrites p \<Longrightarrow> mWriteQueue q = mWriteQueue p \<Longrightarrow>
     unissued q = unissued p"
  by (simp add: unissued_def split: list.split WriteOp.split)

lemma delayed_fields:
  "pipeline_ok ((dropped r d p)\<lparr>mDelayedShutdown := True\<rparr>) = pipeline_ok p"
  "pendingWrites ((dropped r d p)\<lparr>mDelayedShutdown := True\<rparr>) = pendingWrites p"
  "drainSteps ((dropped r d p)\<lparr>mDelayedShutdown := True\<rparr>) = drainSteps p"
  "posted ((dropped r d p)\<lparr>mDelayedShutdown := True\<rparr>) = posted p"
  "sockWrites ((dropped r d p)\<lparr>mDelayedShutdown := True\<rparr>) = sockWrites p"
  "unissued ((dropped r d p)\<lparr>mDelayedShutdown := True\<rparr>) = unissued p"
proof -
  show "pipeline_ok ((dropped r d p)\<lparr>mDelayedShutdown := True\<rparr>) = pipeline_ok p"
    by (rule pipeline_ok_cong) simp_all
  show "drainSteps ((dropped r d p)\<lparr>mDelayedShutdown := True\<rparr>) = drainSteps p"
    by (rule drainSteps_cong) simp_all
  show "unissued ((dropped r d p)\<lparr>mDelayedShutdown := True\<rparr>) = unissued p"
    by (rule unissued_cong) simp_all
qed simp_all

text \<open>
  Claim C7. \<open>drop\<close> on a peer that is already aborting changes nothing. Otherwise it logs,
  sets \<open>mState\<close> to \<open>CLOSING\<close> and removes the peer from the overlay manager; then, when the
  mode is \<open>IGNORE_WRITE_QUEUE\<close> or no write chain is running, it calls \<open>shutdown\<close> at once,
  and else it only sets \<open>mDelayedShutdown\<close>, and the write pump calls \<open>shutdown\<close> when the
  queue has drained: from a pipeline with an operation in flight, the successful completions
  of the queued writes and of the flush that follows them end with \<open>shutdown\<close> scheduled,
  every queued payload given to the socket and nothing in flight, and no shorter run of
  successful completions schedules it.
\<close>
theorem drop_peer_cases:
  "(shouldAbort p \<longrightarrow> drop_peer reason dir mode p = p) \<and>
   (\<not> shouldAbort p \<longrightarrow>
      mState (drop_peer reason dir mode p) = CLOSING \<and>
      \<not> inOverlayManager (drop_peer reason dir mode p) \<and>
      (mode = IGNORE_WRITE_QUEUE \<or> \<not> mWriting p \<longrightarrow>
         drop_peer reason dir mode p = shutdown (dropped reason dir p) \<and>
         mShutdownScheduled (drop_peer reason dir mode p) \<and>
         mDelayedShutdown (drop_peer reason dir mode p) = mDelayedShutdown p) \<and>
      (\<not> (mode = IGNORE_WRITE_QUEUE \<or> \<not> mWriting p) \<longrightarrow>
         drop_peer reason dir mode p = (dropped reason dir p)\<lparr>mDelayedShutdown := True\<rparr> \<and>
         mDelayedShutdown (drop_peer reason dir mode p) \<and>
         mShutdownScheduled (drop_peer reason dir mode p) = mShutdownScheduled p \<and>
         posted (drop_peer reason dir mode p) = posted p \<and>
         (mWriteQueue (drop_peer reason dir mode p) = [] \<longrightarrow>
            mShutdownScheduled (flushCompletion 0 (drop_peer reason dir mode p))) \<and>
         (pipeline_ok p \<and> pendingWrites p \<noteq> [] \<and> \<not> mShutdownScheduled p \<longrightarrow>
            (\<forall>lens. length lens < drainSteps p \<longrightarrow>
               (\<exists>q. run (successes lens) (drop_peer reason dir mode p) = Inr q \<and>
                    \<not> mShutdownScheduled q \<and> posted q = posted p \<and> pendingWrites q \<noteq> [])) \<and>
            (\<forall>lens. length lens = drainSteps p \<longrightarrow>
               (\<exists>q. run (successes lens) (drop_peer reason dir mode p) = Inr q \<and>
                    mShutdownScheduled q \<and> posted q = posted p @ [TaskShutdown] \<and>
                    \<not> mWriting q \<and> pendingWrites q = [] \<and> mWriteQueue q = [] \<and>
                    sockWrites q = sockWrites p @ map mMessage (unissued p))))))"
proof -
  let ?D = "(dropped reason dir p)\<lparr>mDelayedShutdown := True\<rparr>"
  have d: "\<not> (mode = IGNORE_WRITE_QUEUE \<or> \<not> mWriting p) \<Longrightarrow> \<not> shouldAbort p \<Longrightarrow>
      mWriteQueue (drop_peer reason dir mode p) = [] \<Longrightarrow>
      mShutdownScheduled (flushCompletion 0 (drop_peer reason dir mode p))"
    by (subst flushCompletion_delayed) (simp_all add: drop_peer_eq)
  have e: "\<not> (mode = IGNORE_WRITE_QUEUE \<or> \<not> mWriting p) \<Longrightarrow> \<not> shouldAbort p \<Longrightarrow>
      posted (drop_peer reason dir mode p) = posted p"
    by (simp add: drop_peer_eq dropped_def)
  have f: "\<exists>q. run (successes lens) ?D = Inr q \<and>
             \<not> mShutdownScheduled q \<and> posted q = posted p \<and> pendingWrites q \<noteq> []"
    if "pipeline_ok p" "pendingWrites p \<noteq> []" "\<not> mShutdownScheduled p"
      "length lens < drainSteps p" for lens
    using that drain_run [of ?D lens] by (simp add: delayed_fields)
  have g: "\<exists>q. run (successes lens) ?D = Inr q \<and>
             mShutdownScheduled q \<and> posted q = posted p @ [TaskShutdown] \<and>
             \<not> mWriting q \<and> pendingWrites q = [] \<and> mWriteQueue q = [] \<and>
             sockWrites q = sockWrites p @ map mMessage (unissued p)"
    if "pipeline_ok p" "pendingWrites p \<noteq> []" "\<not> mShutdownScheduled p"
      "length lens = drainSteps p" for lens
    using that drain_run [of ?D lens] by (simp add: delayed_fields) blast
  have h: "\<not> (mode = IGNORE_WRITE_QUEUE \<or> \<not> mWriting p) \<Longrightarrow> \<not> shouldAbort p \<Longrightarrow>
      drop_peer reason dir mode p = ?D"
    by (simp add: drop_peer_eq)
  show ?thesis
  proof (cases "shouldAbort p")
    case True
    then show ?thesis by (simp add: drop_peer_eq)
  next
    case na: False
    show ?thesis
    proof (cases "mode = IGNORE_WRITE_QUEUE \<or> \<not> mWriting p")
      case True
      then show ?thesis using na by (simp add: drop_peer_eq)
    next
      case False
      have i: "drop_peer reason dir mode p = ?D"
        using h [OF False na] .
      have j: "mDelayedShutdown ?D" "mShutdownScheduled ?D = mShutdownScheduled p"
        "mState ?D = CLOSING" "\<not> inOverlayManager ?D"
        by simp_all
      show ?thesis
        using na False d [OF False na] e [OF False na] f g j
        unfolding i by (simp add: delayed_fields)
    qed
  qed
qed

lemma writingPeer_facts:
  "pipeline_ok writingPeer" "pendingWrites writingPeer \<noteq> []" "\<not> mShutdownScheduled writingPeer"
  "drainSteps writingPeer = 2" "\<not> shouldAbort writingPeer" "mWriting writingPeer"
  "sockWrites writingPeer = [[1, 2, 3]]" "unissued writingPeer = []"
  by (simp_all add: writingPeer_eq pipeline_ok_def drainSteps_def unissued_def shouldAbort_def
      freshPeer_def)

theorem drop_peer_cases_witness:
  "shouldAbort closingPeer \<and> drop_peer ''again'' WE_DROPPED_REMOTE IGNORE_WRITE_QUEUE closingPeer = closingPeer \<and>
   \<not> shouldAbort freshPeer \<and> \<not> mWriting freshPeer \<and>
   drop_peer ''idle'' WE_DROPPED_REMOTE KEEP_WRITE_QUEUE freshPeer =
     shutdown (dropped ''idle'' WE_DROPPED_REMOTE freshPeer) \<and>
   \<not> shouldAbort writingPeer \<and> mWriting writingPeer \<and>
   mState (drop_peer ''idle'' WE_DROPPED_REMOTE KEEP_WRITE_QUEUE writingPeer) = CLOSING \<and>
   mDelayedShutdown (drop_peer ''idle'' WE_DROPPED_REMOTE KEEP_WRITE_QUEUE writingPeer) \<and>
   posted (drop_peer ''idle'' WE_DROPPED_REMOTE KEEP_WRITE_QUEUE writingPeer) = posted writingPeer \<and>
   mShutdownScheduled (drop_peer ''idle'' WE_DROPPED_REMOTE IGNORE_WRITE_QUEUE writingPeer) \<and>
   \<not> shouldAbort flushingPeer \<and> mWriting flushingPeer \<and>
   mWriteQueue (drop_peer ''idle'' WE_DROPPED_REMOTE KEEP_WRITE_QUEUE flushingPeer) = [] \<and>
   mShutdownScheduled (drop_peer ''idle'' WE_DROPPED_REMOTE KEEP_WRITE_QUEUE flushingPeer) =
     mShutdownScheduled flushingPeer \<and>
   mShutdownScheduled
     (flushCompletion 0 (drop_peer ''idle'' WE_DROPPED_REMOTE KEEP_WRITE_QUEUE flushingPeer)) \<and>
   pipeline_ok writingPeer \<and> pendingWrites writingPeer \<noteq> [] \<and>
   \<not> mShutdownScheduled writingPeer \<and> drainSteps writingPeer = 2 \<and>
   (\<exists>q. run (successes [3]) (drop_peer ''idle'' WE_DROPPED_REMOTE KEEP_WRITE_QUEUE writingPeer) = Inr q \<and>
        \<not> mShutdownScheduled q \<and> pendingWrites q \<noteq> []) \<and>
   (\<exists>q. run (successes [3, 0]) (drop_peer ''idle'' WE_DROPPED_REMOTE KEEP_WRITE_QUEUE writingPeer) = Inr q \<and>
        mShutdownScheduled q \<and> posted q = posted writingPeer @ [TaskShutdown] \<and>
        pendingWrites q = [] \<and> mWriteQueue q = [] \<and> sockWrites q = [[1, 2, 3]])"
proof -
  have a: "shouldAbort closingPeer"
    by (simp add: shouldAbort_def closingPeer_def)
  have b: "\<not> shouldAbort freshPeer" "\<not> mWriting freshPeer"
    by (simp_all add: shouldAbort_def freshPeer_def)
  note c = writingPeer_facts
  have d: "\<not> shouldAbort flushingPeer" "mWriting flushingPeer"
    "mWriteQueue (drop_peer ''idle'' WE_DROPPED_REMOTE KEEP_WRITE_QUEUE flushingPeer) = []"
    by (simp_all add: shouldAbort_def flushingPeer_def freshPeer_def)
  have k: "KEEP_WRITE_QUEUE \<noteq> IGNORE_WRITE_QUEUE"
    by simp
  from a drop_peer_cases [of closingPeer "''again''" WE_DROPPED_REMOTE IGNORE_WRITE_QUEUE]
  have w1: "drop_peer ''again'' WE_DROPPED_REMOTE IGNORE_WRITE_QUEUE closingPeer = closingPeer"
    by blast
  from b drop_peer_cases [of freshPeer "''idle''" WE_DROPPED_REMOTE KEEP_WRITE_QUEUE]
  have w2: "drop_peer ''idle'' WE_DROPPED_REMOTE KEEP_WRITE_QUEUE freshPeer =
      shutdown (dropped ''idle'' WE_DROPPED_REMOTE freshPeer)"
    by blast
  note t = drop_peer_cases [of writingPeer "''idle''" WE_DROPPED_REMOTE KEEP_WRITE_QUEUE]
  from c(5,6) k t
  have w3: "mState (drop_peer ''idle'' WE_DROPPED_REMOTE KEEP_WRITE_QUEUE writingPeer) = CLOSING"
    "mDelayedShutdown (drop_peer ''idle'' WE_DROPPED_REMOTE KEEP_WRITE_QUEUE writingPeer)"
    "posted (drop_peer ''idle'' WE_DROPPED_REMOTE KEEP_WRITE_QUEUE writingPeer) = posted writingPeer"
    by blast+
  from c(5,6) k t c(1,2,3)
  have w3a: "\<forall>lens. length lens < drainSteps writingPeer \<longrightarrow>
      (\<exists>q. run (successes lens) (drop_peer ''idle'' WE_DROPPED_REMOTE KEEP_WRITE_QUEUE writingPeer) = Inr q \<and>
           \<not> mShutdownScheduled q \<and> posted q = posted writingPeer \<and> pendingWrites q \<noteq> [])"
    and w3b: "\<forall>lens. length lens = drainSteps writingPeer \<longrightarrow>
      (\<exists>q. run (successes lens) (drop_peer ''idle'' WE_DROPPED_REMOTE KEEP_WRITE_QUEUE writingPeer) = Inr q \<and>
           mShutdownScheduled q \<and> posted q = posted writingPeer @ [TaskShutdown] \<and>
           \<not> mWriting q \<and> pendingWrites q = [] \<and> mWriteQueue q = [] \<and>
           sockWrites q = sockWrites writingPeer @ map mMessage (unissued writingPeer))"
    by blast+
  have w3c: "\<exists>q. run (successes [3]) (drop_peer ''idle'' WE_DROPPED_REMOTE KEEP_WRITE_QUEUE writingPeer) = Inr q \<and>
        \<not> mShutdownScheduled q \<and> pendingWrites q \<noteq> []"
    using w3a [rule_format, of "[3]"] c(4) by auto
  have w3d: "\<exists>q. run (successes [3, 0]) (drop_peer ''idle'' WE_DROPPED_REMOTE KEEP_WRITE_QUEUE writingPeer) = Inr q \<and>
        mShutdownScheduled q \<and> posted q = posted writingPeer @ [TaskShutdown] \<and>
        pendingWrites q = [] \<and> mWriteQueue q = [] \<and> sockWrites q = [[1, 2, 3]]"
    using w3b [rule_format, of "[3, 0]"] c(4,7,8) by auto
  from c(5,6) drop_peer_cases [of writingPeer "''idle''" WE_DROPPED_REMOTE IGNORE_WRITE_QUEUE]
  have w4: "mShutdownScheduled (drop_peer ''idle'' WE_DROPPED_REMOTE IGNORE_WRITE_QUEUE writingPeer)"
    by blast
  from d k drop_peer_cases [of flushingPeer "''idle''" WE_DROPPED_REMOTE KEEP_WRITE_QUEUE]
  have w5: "mShutdownScheduled (drop_peer ''idle'' WE_DROPPED_REMOTE KEEP_WRITE_QUEUE flushingPeer) =
      mShutdownScheduled flushingPeer"
    "mShutdownScheduled
      (flushCompletion 0 (drop_peer ''idle'' WE_DROPPED_REMOTE KEEP_WRITE_QUEUE flushingPeer))"
    by blast+
  show ?thesis
    using a b c(1-6) d w1 w2 w3 w3c w3d w4 w5 by simp
qed

section \<open>Properties: the drain loop of startRead\<close>

lemmas startRead_unfold =
  startRead_def shouldAbort_def freshPeer_def resize_def HDRSZ_def read_some_def
  getIncomingMsgLength_def decodeLength_def unacceptable_def isAuthenticated_def
  drop_peer_def shutdown_def Let_def MAX_UNAUTH_MESSAGE_SIZE_def MAX_MESSAGE_SIZE_def
  receivedBytes_def recvMessage_def threeRounds_def

text \<open>
  Claim C3, on the code. With a header of length zero buffered, \<open>getIncomingMsgLength\<close>
  drops the peer and returns 0, but the drain loop of \<open>startRead\<close> has no \<open>return\<close> for
  that case: it goes round again. With nothing more buffered it leaves the loop and registers
  the asynchronous header read on the dropped peer; with a frame buffered behind the bad
  header it reads that frame's header and body and dispatches the message, and then
  registers the asynchronous header read.
\<close>
theorem startRead_goes_on_after_zero_length:
  "getIncomingMsgLength (peerWithHeader [0, 0, 0, 0]) =
     (0, drop_peer ''error during read'' WE_DROPPED_REMOTE IGNORE_WRITE_QUEUE
           ((peerWithHeader [0, 0, 0, 0])\<lparr>mErrorRead := 1,
              logs := [(LVL_ERROR, MessageSizeUnacceptable 0 False)]\<rparr>)) \<and>
   startRead exampleDecode exampleHandler exampleError threeRounds zeroLengthPeer =
     Inr afterZeroLength \<and>
   mState afterZeroLength = CLOSING \<and>
   pendingReads afterZeroLength = [AsyncReadHeader] \<and>
   startRead exampleDecode exampleHandler exampleError threeRounds zeroThenFramePeer =
     Inr afterZeroThenFrame \<and>
   sockIn afterZeroThenFrame = [] \<and>
   mIncomingBody afterZeroThenFrame = [0x2A] \<and>
   mMessageRead afterZeroThenFrame = 2 \<and>
   pendingReads afterZeroThenFrame = [AsyncReadHeader]"
proof -
  have a: "getIncomingMsgLength (peerWithHeader [0, 0, 0, 0]) =
     (0, drop_peer ''error during read'' WE_DROPPED_REMOTE IGNORE_WRITE_QUEUE
           ((peerWithHeader [0, 0, 0, 0])\<lparr>mErrorRead := 1,
              logs := [(LVL_ERROR, MessageSizeUnacceptable 0 False)]\<rparr>))"
    by (simp add: getIncomingMsgLength_def peerWithHeader_def freshPeer_def decodeLength_def
        unacceptable_def isAuthenticated_def Let_def)
  have b: "startRead exampleDecode exampleHandler exampleError threeRounds zeroLengthPeer =
     Inr afterZeroLength"
    by (simp add: zeroLengthPeer_def afterZeroLength_def startRead_unfold)
  have c: "startRead exampleDecode exampleHandler exampleError threeRounds zeroThenFramePeer =
     Inr afterZeroThenFrame"
    by (simp add: zeroThenFramePeer_def afterZeroThenFrame_def startRead_unfold
        exampleDecode_def exampleHandler_def)
  show ?thesis
    using a b c by (simp add: afterZeroLength_def afterZeroThenFrame_def freshPeer_def)
qed

end
